theory Spec2Isabelle
  imports Complex_Main
begin

section \<open>Data model of colundi\_generator.py\<close>

text \<open>
  A Python float is an IEEE 754 binary64 number. It is modelled by its value: a finite
  float is the real number it denotes, and the two infinities and NaN are values of
  their own. The two zeros are one value (they compare equal in Python). Every
  operation on floats rounds its exact result to binary64 (\<open>round64\<close> below), so the
  finite values that occur are binary64 numbers. Python integers are \<^typ>\<open>int\<close>.
\<close>

datatype WaveFormType = SINE | TRIANGLE | SQUARE | SAWTOOTH

datatype pyfloat = Finite real | PosInf | NegInf | NaN

datatype error =
    ValueError
  | ZeroDivisionError
  | OverflowError
  | FileNotFoundError
  | FileExistsError

section \<open>Binary64 arithmetic\<close>

text \<open>Two to the power \<open>k\<close>, for an integer \<open>k\<close>.\<close>

definition pow2 :: "int \<Rightarrow> real" where
  "pow2 k = (if 0 \<le> k then 2 ^ nat k else 1 / 2 ^ nat (- k))"

text \<open>
  The exponent of the binade of a non-zero real: \<open>2 ^ e \<le> \<bar>x\<bar> < 2 ^ (e + 1)\<close>, but not
  below \<open>- 1022\<close>, the exponent of the subnormal numbers.
\<close>

definition expo :: "real \<Rightarrow> int" where
  "expo x = max \<lfloor>log 2 \<bar>x\<bar>\<rfloor> (- 1022)"

text \<open>Rounding to the nearest integer, a tie to the even one.\<close>

definition round_even :: "real \<Rightarrow> int" where
  "round_even q =
     (if q - of_int \<lfloor>q\<rfloor> < 1 / 2 then \<lfloor>q\<rfloor>
      else if 1 / 2 < q - of_int \<lfloor>q\<rfloor> then \<lfloor>q\<rfloor> + 1
      else if even \<lfloor>q\<rfloor> then \<lfloor>q\<rfloor>
      else \<lfloor>q\<rfloor> + 1)"

text \<open>
  Rounding to 53 significant bits (fewer for subnormal numbers), to nearest, ties to
  even, with no upper limit on the exponent.
\<close>

definition round_real :: "real \<Rightarrow> real" where
  "round_real x =
     (if x = 0 then 0
      else of_int (round_even (x / pow2 (expo x - 52))) * pow2 (expo x - 52))"

text \<open>
  Rounding to binary64: a result of magnitude \<open>2 ^ 1024\<close> or more is an infinity.
\<close>

definition round64 :: "real \<Rightarrow> pyfloat" where
  "round64 x =
     (if 2 ^ 1024 \<le> round_real x then PosInf
      else if round_real x \<le> - (2 ^ 1024) then NegInf
      else Finite (round_real x))"

text \<open>The infinity with the sign of \<open>s\<close>; NaN for \<open>s = 0\<close>.\<close>

definition inf_of :: "real \<Rightarrow> pyfloat" where
  "inf_of s = (if s = 0 then NaN else if 0 < s then PosInf else NegInf)"

text \<open>
  The IEEE operations. They raise nothing: an overflow gives an infinity and an
  invalid operation gives NaN. A division by the finite zero is decided as for
  \<open>+0.0\<close>.
\<close>

fun fmul :: "pyfloat \<Rightarrow> pyfloat \<Rightarrow> pyfloat" where
  "fmul NaN b = NaN"
| "fmul a NaN = NaN"
| "fmul (Finite x) (Finite y) = round64 (x * y)"
| "fmul (Finite x) PosInf = inf_of x"
| "fmul (Finite x) NegInf = inf_of (- x)"
| "fmul PosInf (Finite y) = inf_of y"
| "fmul NegInf (Finite y) = inf_of (- y)"
| "fmul PosInf PosInf = PosInf"
| "fmul PosInf NegInf = NegInf"
| "fmul NegInf PosInf = NegInf"
| "fmul NegInf NegInf = PosInf"

fun fdiv :: "pyfloat \<Rightarrow> pyfloat \<Rightarrow> pyfloat" where
  "fdiv NaN b = NaN"
| "fdiv a NaN = NaN"
| "fdiv (Finite x) (Finite y) = (if y = 0 then inf_of x else round64 (x / y))"
| "fdiv (Finite x) PosInf = Finite 0"
| "fdiv (Finite x) NegInf = Finite 0"
| "fdiv PosInf (Finite y) = (if 0 \<le> y then PosInf else NegInf)"
| "fdiv NegInf (Finite y) = (if 0 \<le> y then NegInf else PosInf)"
| "fdiv a b = NaN"

fun fadd :: "pyfloat \<Rightarrow> pyfloat \<Rightarrow> pyfloat" where
  "fadd NaN b = NaN"
| "fadd a NaN = NaN"
| "fadd (Finite x) (Finite y) = round64 (x + y)"
| "fadd (Finite x) b = b"
| "fadd a (Finite y) = a"
| "fadd PosInf PosInf = PosInf"
| "fadd NegInf NegInf = NegInf"
| "fadd a b = NaN"

fun fneg :: "pyfloat \<Rightarrow> pyfloat" where
  "fneg (Finite x) = Finite (- x)"
| "fneg PosInf = NegInf"
| "fneg NegInf = PosInf"
| "fneg NaN = NaN"

definition fsub :: "pyfloat \<Rightarrow> pyfloat \<Rightarrow> pyfloat" where
  "fsub a b = fadd a (fneg b)"

text \<open>\<^verbatim>\<open>np.abs\<close> and \<^verbatim>\<open>np.floor\<close> on a float, and the comparison \<^verbatim>\<open><\<close>.\<close>

fun fabs :: "pyfloat \<Rightarrow> pyfloat" where
  "fabs (Finite x) = Finite \<bar>x\<bar>"
| "fabs PosInf = PosInf"
| "fabs NegInf = PosInf"
| "fabs NaN = NaN"

fun ffloor :: "pyfloat \<Rightarrow> pyfloat" where
  "ffloor (Finite x) = Finite (of_int \<lfloor>x\<rfloor>)"
| "ffloor a = a"

fun fless :: "pyfloat \<Rightarrow> pyfloat \<Rightarrow> bool" where
  "fless NaN b = False"
| "fless a NaN = False"
| "fless (Finite x) (Finite y) = (x < y)"
| "fless a PosInf = (a \<noteq> PosInf)"
| "fless NegInf b = (b \<noteq> NegInf)"
| "fless a b = False"

text \<open>
  \<^verbatim>\<open>x % y\<close> on floats (Python and numpy agree): the exact remainder of the division
  truncated towards zero, to which \<open>y\<close> is added when it is not zero and its sign is
  not that of \<open>y\<close>; that addition rounds. The remainder by zero and the remainder of an
  infinity are NaN.
\<close>

definition py_trunc :: "real \<Rightarrow> int" where
  "py_trunc x = (if 0 \<le> x then \<lfloor>x\<rfloor> else \<lceil>x\<rceil>)"

fun float_mod :: "pyfloat \<Rightarrow> pyfloat \<Rightarrow> pyfloat" where
  "float_mod (Finite x) (Finite y) =
     (if y = 0 then NaN
      else if x - y * of_int (py_trunc (x / y)) \<noteq> 0 \<and>
              ((y < 0) \<noteq> (x - y * of_int (py_trunc (x / y)) < 0))
           then round64 (x - y * of_int (py_trunc (x / y)) + y)
      else Finite (x - y * of_int (py_trunc (x / y))))"
| "float_mod (Finite x) PosInf = (if x < 0 then PosInf else Finite x)"
| "float_mod (Finite x) NegInf = (if 0 < x then NegInf else Finite x)"
| "float_mod a b = NaN"

text \<open>
  The conversion of a Python int to a float (correctly rounded), which raises
  OverflowError for an int too large; \<^verbatim>\<open>math.ceil\<close> and \<^verbatim>\<open>int\<close> of a float, which
  raise OverflowError for an infinity and ValueError for NaN. \<^verbatim>\<open>int\<close> truncates
  towards zero.
\<close>

definition to_float :: "int \<Rightarrow> error + pyfloat" where
  "to_float n =
     (case round64 (of_int n) of Finite r \<Rightarrow> Inr (Finite r) | _ \<Rightarrow> Inl OverflowError)"

fun math_ceil :: "pyfloat \<Rightarrow> error + int" where
  "math_ceil (Finite x) = Inr \<lceil>x\<rceil>"
| "math_ceil NaN = Inl ValueError"
| "math_ceil a = Inl OverflowError"

fun py_int :: "pyfloat \<Rightarrow> error + int" where
  "py_int (Finite x) = Inr (py_trunc x)"
| "py_int NaN = Inl ValueError"
| "py_int a = Inl OverflowError"

text \<open>\<^verbatim>\<open>np.pi\<close>, the binary64 number nearest to \<open>pi\<close>, and \<^verbatim>\<open>2 * np.pi\<close>.\<close>

definition pi64 :: real where
  "pi64 = 884279719003555 / 2 ^ 48"

definition two_pi :: pyfloat where
  "two_pi = fmul (Finite 2) (Finite pi64)"

section \<open>Wave shaping functions\<close>

text \<open>\<^verbatim>\<open>2 * np.abs(2 * ((x / (2 * np.pi)) - np.floor((x / (2 * np.pi)) + 0.5))) - 1\<close>\<close>

definition triangle_func :: "pyfloat \<Rightarrow> pyfloat" where
  "triangle_func x =
     fsub (fmul (Finite 2)
             (fabs (fmul (Finite 2)
                      (fsub (fdiv x two_pi) (ffloor (fadd (fdiv x two_pi) (Finite (1 / 2))))))))
          (Finite 1)"

text \<open>\<^verbatim>\<open>1 if (x % (2 * np.pi)) < np.pi else -1\<close>\<close>

definition square_func :: "pyfloat \<Rightarrow> int" where
  "square_func x = (if fless (float_mod x two_pi) (Finite pi64) then 1 else - 1)"

text \<open>\<^verbatim>\<open>2 * (x / (2 * np.pi) - np.floor(0.5 + x / (2 * np.pi)))\<close>\<close>

definition sawtooth_func :: "pyfloat \<Rightarrow> pyfloat" where
  "sawtooth_func x =
     fmul (Finite 2) (fsub (fdiv x two_pi) (ffloor (fadd (Finite (1 / 2)) (fdiv x two_pi))))"

section \<open>The sample buffer builder\<close>

text \<open>
  An array is the list of its elements. \<^verbatim>\<open>np.sin\<close> works elementwise on any array;
  the value of numpy's sine routine on a float is not determined by IEEE 754, so the
  routine is a parameter \<open>fsin\<close> of the model. A function wrapped by
  \<^verbatim>\<open>np.vectorize\<close> (without \<^verbatim>\<open>otypes\<close>) is applied elementwise too, but numpy
  refuses an input of size 0 with ValueError. The limits that memory puts on the
  length of an array are not modelled.
\<close>

type_synonym wave_func = "pyfloat list \<Rightarrow> error + pyfloat list"

definition np_sin :: "(pyfloat \<Rightarrow> pyfloat) \<Rightarrow> wave_func" where
  "np_sin fsin xs = Inr (map fsin xs)"

definition np_vectorize :: "(pyfloat \<Rightarrow> pyfloat) \<Rightarrow> wave_func" where
  "np_vectorize f xs = (if xs = [] then Inl ValueError else Inr (map f xs))"

text \<open>
  The attributes that \<^verbatim>\<open>WaveformGenerator.__init__\<close> stores, and the constructor with
  the dictionary it builds. The square wave function returns an int, which becomes a
  float when the array is multiplied by the amplitude.
\<close>

record generator =
  sample_rate :: int
  duration :: int
  amplitude :: pyfloat
  wave_functions :: "WaveFormType \<Rightarrow> wave_func"

fun wave_function_dict :: "(pyfloat \<Rightarrow> pyfloat) \<Rightarrow> WaveFormType \<Rightarrow> wave_func" where
  "wave_function_dict fsin SINE = np_sin fsin"
| "wave_function_dict fsin TRIANGLE = np_vectorize triangle_func"
| "wave_function_dict fsin SQUARE = np_vectorize (\<lambda>x. Finite (of_int (square_func x)))"
| "wave_function_dict fsin SAWTOOTH = np_vectorize sawtooth_func"

definition WaveformGenerator ::
  "(pyfloat \<Rightarrow> pyfloat) \<Rightarrow> int \<Rightarrow> int \<Rightarrow> pyfloat \<Rightarrow> generator" where
  "WaveformGenerator fsin sr d a =
     \<lparr>sample_rate = sr, duration = d, amplitude = a,
      wave_functions = wave_function_dict fsin\<rparr>"

text \<open>
  \<^verbatim>\<open>np.linspace(0, stop, num, endpoint=False)\<close>: numpy rejects a negative \<open>num\<close> with
  ValueError; otherwise the result is \<^verbatim>\<open>arange(0, num) * step + 0\<close> with
  \<^verbatim>\<open>step = stop / num\<close>, computed in binary64, or
  \<^verbatim>\<open>arange(0, num) / num * stop + 0\<close> when the step is zero.
\<close>

definition linspace :: "pyfloat \<Rightarrow> int \<Rightarrow> error + pyfloat list" where
  "linspace stop num =
     (if num < 0 then Inl ValueError
      else if fdiv stop (round64 (of_int num)) = Finite 0 then
        Inr (map (\<lambda>i. fadd (fmul (fdiv (round64 (of_nat i)) (round64 (of_int num))) stop)
                        (Finite 0))
               [0..<nat num])
      else
        Inr (map (\<lambda>i. fadd (fmul (round64 (of_nat i)) (fdiv stop (round64 (of_int num))))
                        (Finite 0))
               [0..<nat num]))"

text \<open>
  The local variables of \<^verbatim>\<open>_generate_wave\<close>, in the order the source computes them
  (lines 32 to 36), each with the exceptions that its computation can raise:
  \<^verbatim>\<open>self.duration * frequency\<close> and \<^verbatim>\<open>self.sample_rate * adjusted_duration\<close>
  convert the int to a float, \<^verbatim>\<open>num_periods / frequency\<close> converts the int and raises
  ZeroDivisionError for a zero frequency.
\<close>

definition num_periods :: "'a generator_scheme \<Rightarrow> pyfloat \<Rightarrow> error + int" where
  "num_periods self frequency =
     (case to_float (duration self) of
        Inl e \<Rightarrow> Inl e
      | Inr d \<Rightarrow> math_ceil (fmul d frequency))"

definition adjusted_duration :: "'a generator_scheme \<Rightarrow> pyfloat \<Rightarrow> error + pyfloat" where
  "adjusted_duration self frequency =
     (case num_periods self frequency of
        Inl e \<Rightarrow> Inl e
      | Inr p \<Rightarrow>
          (case to_float p of
             Inl e \<Rightarrow> Inl e
           | Inr pf \<Rightarrow>
               if frequency = Finite 0 then Inl ZeroDivisionError
               else Inr (fdiv pf frequency)))"

definition num_samples :: "'a generator_scheme \<Rightarrow> pyfloat \<Rightarrow> error + int" where
  "num_samples self frequency =
     (case adjusted_duration self frequency of
        Inl e \<Rightarrow> Inl e
      | Inr dd \<Rightarrow>
          (case to_float (sample_rate self) of
             Inl e \<Rightarrow> Inl e
           | Inr r \<Rightarrow> py_int (fmul r dd)))"

definition sample_times :: "'a generator_scheme \<Rightarrow> pyfloat \<Rightarrow> error + pyfloat list" where
  "sample_times self frequency =
     (case adjusted_duration self frequency of
        Inl e \<Rightarrow> Inl e
      | Inr dd \<Rightarrow>
          (case num_samples self frequency of
             Inl e \<Rightarrow> Inl e
           | Inr n \<Rightarrow> linspace dd n))"

text \<open>\<^verbatim>\<open>2 * np.pi * frequency * t\<close>\<close>

definition phases :: "pyfloat \<Rightarrow> pyfloat list \<Rightarrow> pyfloat list" where
  "phases frequency t = map (\<lambda>ti. fmul (fmul two_pi frequency) ti) t"

text \<open>
  \<^verbatim>\<open>WaveformGenerator._generate_wave\<close>. The method never assigns to an attribute of
  \<open>self\<close>.
\<close>

definition generate_wave ::
  "'a generator_scheme \<Rightarrow> wave_func \<Rightarrow> pyfloat \<Rightarrow> error + pyfloat list" where
  "generate_wave self wave_func frequency =
     (case sample_times self frequency of
        Inl e \<Rightarrow> Inl e
      | Inr t \<Rightarrow>
          (case wave_func (phases frequency t) of
             Inl e \<Rightarrow> Inl e
           | Inr w \<Rightarrow> Inr (map (\<lambda>s. fmul (amplitude self) s) w)))"

section \<open>Text and number parsing\<close>

text \<open>
  A Python \<^verbatim>\<open>str\<close> is a list of characters; a \<^typ>\<open>char\<close> stands for the code
  point of the same number, so the model covers text whose code points are below 256.
  \<open>is_space\<close> is \<^verbatim>\<open>str.isspace\<close> on these code points: tab, line feed, vertical
  tab, form feed, carriage return, the four separators 0x1C to 0x1F, space, 0x85 and
  0xA0.
\<close>

definition newline :: char where
  "newline = CHR 0x0A"

definition is_space :: "char \<Rightarrow> bool" where
  "is_space c = (c \<in> set [CHR 0x09, CHR 0x0A, CHR 0x0B, CHR 0x0C, CHR 0x0D,
                            CHR 0x1C, CHR 0x1D, CHR 0x1E, CHR 0x1F, CHR 0x20,
                            CHR 0x85, CHR 0xA0])"

text \<open>\<^verbatim>\<open>s.strip()\<close>\<close>

definition strip :: "string \<Rightarrow> string" where
  "strip s = rev (dropWhile is_space (rev (dropWhile is_space s)))"

text \<open>
  \<^verbatim>\<open>s.split("\n")\<close>: the pieces between line feeds; the empty string gives one
  empty piece, and a line feed at the end gives an empty last piece.
\<close>

fun split_newline :: "string \<Rightarrow> string list" where
  "split_newline [] = [[]]"
| "split_newline (c # cs) =
     (if c = newline then [] # split_newline cs
      else (c # hd (split_newline cs)) # tl (split_newline cs))"

definition is_digit :: "char \<Rightarrow> bool" where
  "is_digit c = (c \<in> set ''0123456789'')"

definition digit_val :: "char \<Rightarrow> nat" where
  "digit_val c = of_char c - 48"

text \<open>
  The grammar that \<^verbatim>\<open>float()\<close> accepts (Python language reference, built-in
  functions), after stripping whitespace:
  \<^verbatim>\<open>
  digitpart     ::= digit (["_"] digit)*
  number        ::= [digitpart] "." digitpart | digitpart ["."]
  exponent      ::= ("e" | "E") [sign] digitpart
  floatnumber   ::= number [exponent]
  absfloatvalue ::= floatnumber | infinity | nan
  floatvalue    ::= [sign] absfloatvalue
  \<close>
  with \<^verbatim>\<open>inf\<close>, \<^verbatim>\<open>infinity\<close> and \<^verbatim>\<open>nan\<close> in any letter case. Digits are the
  ASCII digits. \<open>digitpart_rest\<close> reads the part of a digitpart after its first digit and
  returns the digit values with the unread rest; \<open>digitpart\<close> returns None when the
  text does not start with a digit.
\<close>

fun digitpart_rest :: "string \<Rightarrow> nat list \<times> string" where
  "digitpart_rest [] = ([], [])"
| "digitpart_rest [c] = (if is_digit c then ([digit_val c], []) else ([], [c]))"
| "digitpart_rest (c # d # cs) =
     (if is_digit c then
        (case digitpart_rest (d # cs) of (ds, r) \<Rightarrow> (digit_val c # ds, r))
      else if c = CHR ''_'' \<and> is_digit d then
        (case digitpart_rest cs of (ds, r) \<Rightarrow> (digit_val d # ds, r))
      else ([], c # d # cs))"

definition digitpart :: "string \<Rightarrow> (nat list \<times> string) option" where
  "digitpart s =
     (case s of
        [] \<Rightarrow> None
      | c # cs \<Rightarrow>
          if is_digit c then
            (case digitpart_rest cs of (ds, r) \<Rightarrow> Some (digit_val c # ds, r))
          else None)"

text \<open>
  \<open>number\<close> returns the digits of the integer part, the digits of the fraction and the
  unread rest.
\<close>

definition number :: "string \<Rightarrow> (nat list \<times> nat list \<times> string) option" where
  "number s =
     (case digitpart s of
        Some (ip, r) \<Rightarrow>
          (case r of
             [] \<Rightarrow> Some (ip, [], [])
           | c # r' \<Rightarrow>
               if c = CHR ''.'' then
                 (case digitpart r' of
                    Some (fp, r'') \<Rightarrow> Some (ip, fp, r'')
                  | None \<Rightarrow> Some (ip, [], r'))
               else Some (ip, [], r))
      | None \<Rightarrow>
          (case s of
             [] \<Rightarrow> None
           | c # r' \<Rightarrow>
               if c = CHR ''.'' then
                 (case digitpart r' of
                    Some (fp, r'') \<Rightarrow> Some ([], fp, r'')
                  | None \<Rightarrow> None)
               else None))"

text \<open>An optional sign: True for a minus sign.\<close>

definition sign :: "string \<Rightarrow> bool \<times> string" where
  "sign s =
     (case s of
        [] \<Rightarrow> (False, [])
      | c # cs \<Rightarrow>
          if c = CHR ''-'' then (True, cs)
          else if c = CHR ''+'' then (False, cs)
          else (False, s))"

text \<open>The number that a list of digit values denotes.\<close>

definition digits_value :: "nat list \<Rightarrow> nat" where
  "digits_value ds = foldl (\<lambda>a d. 10 * a + d) 0 ds"

text \<open>The exponent after a number: None when the rest is not an exponent.\<close>

definition exponent :: "string \<Rightarrow> int option" where
  "exponent s =
     (case s of
        [] \<Rightarrow> Some 0
      | c # cs \<Rightarrow>
          if c = CHR ''e'' \<or> c = CHR ''E'' then
            (case sign cs of
               (neg, r) \<Rightarrow>
                 (case digitpart r of
                    Some (ds, []) \<Rightarrow>
                      Some (if neg then - int (digits_value ds) else int (digits_value ds))
                  | Some (ds, x # xs) \<Rightarrow> None
                  | None \<Rightarrow> None))
          else None)"

text \<open>\<open>m\<close> times ten to the power \<open>k\<close>, as an exact real.\<close>

definition scale10 :: "nat \<Rightarrow> int \<Rightarrow> real" where
  "scale10 m k = (if 0 \<le> k then of_nat m * 10 ^ nat k else of_nat m / 10 ^ nat (- k))"

text \<open>The lower-case form of an ASCII letter; other characters are unchanged.\<close>

definition lower :: "char \<Rightarrow> char" where
  "lower c =
     (case map_of (zip ''ABCDEFGHIJKLMNOPQRSTUVWXYZ'' ''abcdefghijklmnopqrstuvwxyz'') c of
        Some l \<Rightarrow> l
      | None \<Rightarrow> c)"

text \<open>
  \<^verbatim>\<open>float(s)\<close> for a string: ValueError when the stripped text is not a
  \<open>floatvalue\<close>. The value of a decimal numeral is rounded to binary64, so a numeral
  that is too large gives an infinity.
\<close>

definition py_float :: "string \<Rightarrow> error + pyfloat" where
  "py_float s =
     (case sign (strip s) of
        (neg, r) \<Rightarrow>
          if map lower r = ''inf'' \<or> map lower r = ''infinity'' then
            Inr (if neg then NegInf else PosInf)
          else if map lower r = ''nan'' then Inr NaN
          else
            (case number r of
               None \<Rightarrow> Inl ValueError
             | Some (ip, fp, r') \<Rightarrow>
                 (case exponent r' of
                    None \<Rightarrow> Inl ValueError
                  | Some e \<Rightarrow>
                      Inr (round64 ((if neg then - 1 else 1) *
                             scale10 (digits_value (ip @ fp)) (e - int (length fp)))))))"

section \<open>Files and the driver\<close>

text \<open>
  The part of the outside world the program touches: the text files it can read (by
  path, with the text \<^verbatim>\<open>read_text\<close> returns), the directories it has created, the
  audio files written (samples and sample rate) and the lines printed.
\<close>

record world =
  text_files :: "string \<rightharpoonup> string"
  dirs :: "string set"
  wav_files :: "string \<rightharpoonup> pyfloat list \<times> int"
  stdout :: "string list"

definition read_text :: "string \<Rightarrow> world \<Rightarrow> error + string" where
  "read_text path w =
     (case text_files w path of None \<Rightarrow> Inl FileNotFoundError | Some s \<Rightarrow> Inr s)"

text \<open>
  \<^verbatim>\<open>Path(p).mkdir(exist_ok=True)\<close> for a folder of the working directory: an
  existing directory is accepted, an existing file of that name is FileExistsError.
\<close>

definition mkdir :: "string \<Rightarrow> world \<Rightarrow> error + world" where
  "mkdir path w =
     (if path \<in> dom (text_files w) \<or> path \<in> dom (wav_files w) then Inl FileExistsError
      else Inr (w\<lparr>dirs := insert path (dirs w)\<rparr>))"

text \<open>\<^verbatim>\<open>sf.write(path, data, samplerate)\<close>: the encoder stores the buffer at the path.\<close>

definition sf_write :: "string \<Rightarrow> pyfloat list \<Rightarrow> int \<Rightarrow> world \<Rightarrow> world" where
  "sf_write path data samplerate w = w\<lparr>wav_files := (wav_files w)(path \<mapsto> (data, samplerate))\<rparr>"

definition print :: "string \<Rightarrow> world \<Rightarrow> world" where
  "print line w = w\<lparr>stdout := stdout w @ [line]\<rparr>"

text \<open>
  The list comprehension of \<^verbatim>\<open>load_frequencies\<close>: every line is stripped and given
  to \<^verbatim>\<open>float\<close>, in order; the first failure ends the comprehension.
\<close>

fun parse_lines :: "string list \<Rightarrow> error + pyfloat list" where
  "parse_lines [] = Inr []"
| "parse_lines (line # rest) =
     (case py_float (strip line) of
        Inl e \<Rightarrow> Inl e
      | Inr v \<Rightarrow> (case parse_lines rest of Inl e \<Rightarrow> Inl e | Inr vs \<Rightarrow> Inr (v # vs)))"

definition load_frequencies :: "string \<Rightarrow> world \<Rightarrow> error + pyfloat list" where
  "load_frequencies file_path w =
     (case read_text file_path w of
        Inl e \<Rightarrow> Inl e
      | Inr content \<Rightarrow> parse_lines (split_newline content))"

text \<open>
  The loop of \<^verbatim>\<open>generate_files\<close>. The result is the world after the loop and the
  exception that ended it, if any: files written before a failure stay written.
  \<open>fmt\<close> is the conversion of a float to text that the f-string
  \<^verbatim>\<open>f"colundi_{frequency}.wav"\<close> applies (\<^verbatim>\<open>str\<close> of a float). It is a parameter
  because for a general float that text is the shortest decimal that rounds to the
  same binary64 value, which is not a function of the exact value alone. The output
  folder is a plain folder name, as \<^verbatim>\<open>main\<close> passes it, so joining it with the
  file name puts one slash between them.
\<close>

fun write_waves ::
  "(pyfloat \<Rightarrow> string) \<Rightarrow> 'a generator_scheme \<Rightarrow> wave_func \<Rightarrow>
   string \<Rightarrow> pyfloat list \<Rightarrow> world \<Rightarrow> world \<times> error option" where
  "write_waves fmt self wave_function output_folder [] w = (w, None)"
| "write_waves fmt self wave_function output_folder (frequency # rest) w =
     (case generate_wave self wave_function frequency of
        Inl e \<Rightarrow> (w, Some e)
      | Inr generated_waveform \<Rightarrow>
          write_waves fmt self wave_function output_folder rest
            (sf_write (output_folder @ ''/'' @ ''colundi_'' @ fmt frequency @ ''.wav'')
               generated_waveform (sample_rate self) w))"

definition generate_files ::
  "(pyfloat \<Rightarrow> string) \<Rightarrow> 'a generator_scheme \<Rightarrow> pyfloat list \<Rightarrow> string \<Rightarrow>
   WaveFormType \<Rightarrow> world \<Rightarrow> world \<times> error option" where
  "generate_files fmt self frequencies output_folder waveform_type w =
     (case mkdir output_folder w of
        Inl e \<Rightarrow> (w, Some e)
      | Inr w' \<Rightarrow>
          write_waves fmt self (wave_functions self waveform_type) output_folder frequencies w')"

text \<open>The decimal digits of a natural number (\<^verbatim>\<open>str\<close> of a non-negative int).\<close>

definition digit_char :: "nat \<Rightarrow> char" where
  "digit_char d = ''0123456789'' ! d"

fun nat_str :: "nat \<Rightarrow> string" where
  "nat_str n =
     (if n < 10 then [digit_char n] else nat_str (n div 10) @ [digit_char (n mod 10)])"

text \<open>
  The name of an enumeration member (\<^verbatim>\<open>args.waveform.name\<close>) and its \<^verbatim>\<open>str\<close>,
  which the first message of \<^verbatim>\<open>main\<close> prints.
\<close>

fun waveform_name :: "WaveFormType \<Rightarrow> string" where
  "waveform_name SINE = ''SINE''"
| "waveform_name TRIANGLE = ''TRIANGLE''"
| "waveform_name SQUARE = ''SQUARE''"
| "waveform_name SAWTOOTH = ''SAWTOOTH''"

definition waveform_str :: "WaveFormType \<Rightarrow> string" where
  "waveform_str k = ''WaveFormType.'' @ waveform_name k"

text \<open>The parsed command line: the arguments have their argparse types.\<close>

record args =
  arg_sample_rate :: int
  arg_duration :: int
  arg_amplitude :: pyfloat
  arg_waveform :: WaveFormType

text \<open>
  \<^verbatim>\<open>main\<close> after \<^verbatim>\<open>parser.parse_args()\<close>. An exception is not caught anywhere, so
  it ends the run at the statement that raised it. \<open>fsin\<close> is numpy's sine routine.
\<close>

definition main ::
  "(pyfloat \<Rightarrow> string) \<Rightarrow> (pyfloat \<Rightarrow> pyfloat) \<Rightarrow> args \<Rightarrow> world \<Rightarrow> world \<times> error option" where
  "main fmt fsin a w =
     (case load_frequencies ''colundi_hertz.txt'' w of
        Inl e \<Rightarrow> (w, Some e)
      | Inr frequencies \<Rightarrow>
          (let output_folder = ''colundi_waveforms_'' @ map lower (waveform_name (arg_waveform a));
               w1 = print (''Generating '' @ waveform_str (arg_waveform a) @ '' waveforms for ''
                            @ nat_str (length frequencies) @ '' frequencies'') w;
               generator = WaveformGenerator fsin (arg_sample_rate a) (arg_duration a)
                             (arg_amplitude a)
           in (case generate_files fmt generator frequencies output_folder (arg_waveform a) w1 of
                 (w2, Some e) \<Rightarrow> (w2, Some e)
               | (w2, None) \<Rightarrow>
                   (print (''Waveforms generated, outputs are in '' @ output_folder) w2, None))))"

text \<open>
  \<^verbatim>\<open>str\<close> of a float whose value is an integer of magnitude below \<open>2 ^ 53\<close> (where
  binary64 holds every integer exactly): the decimal digits followed by \<^verbatim>\<open>.0\<close>.
  The non-finite floats print as \<^verbatim>\<open>inf\<close>, \<^verbatim>\<open>-inf\<close> and \<^verbatim>\<open>nan\<close>. On other
  values this function is not Python's conversion, and nothing below uses it there.
\<close>

definition float_str :: "pyfloat \<Rightarrow> string" where
  "float_str x =
     (case x of
        Finite r \<Rightarrow> (if r < 0 then ''-'' else []) @ nat_str (nat \<lfloor>\<bar>r\<bar>\<rfloor>) @ ''.0''
      | PosInf \<Rightarrow> ''inf''
      | NegInf \<Rightarrow> ''-inf''
      | NaN \<Rightarrow> ''nan'')"

declare nat_str.simps [simp del]

section \<open>Properties of rounding\<close>

section \<open>Properties of the rounding\<close>

lemma pow2_powr: "pow2 k = 2 powr of_int k"
  by (simp add: pow2_def powr_int)

lemma pow2_pos: "0 < pow2 k"
  by (simp add: pow2_powr)

lemma pow2_add: "pow2 (a + b) = pow2 a * pow2 b"
  by (simp add: pow2_powr powr_add)

lemma pow2_mono: "a \<le> b \<Longrightarrow> pow2 a \<le> pow2 b"
  by (simp add: pow2_powr)

lemma pow2_strict_mono: "a < b \<Longrightarrow> pow2 a < pow2 b"
  by (simp add: pow2_powr)

lemma pow2_int: "0 \<le> k \<Longrightarrow> pow2 k = of_int (2 ^ nat k)"
  by (simp add: pow2_def)

lemma pow2_diff: "pow2 a = pow2 (a - b) * pow2 b"
  using pow2_add[of "a - b" b] by simp

lemma expo_ge: "- 1022 \<le> expo x"
  by (simp add: expo_def)

lemma floor_log2_bounds:
  assumes "x \<noteq> 0"
  shows "pow2 \<lfloor>log 2 \<bar>x\<bar>\<rfloor> \<le> \<bar>x\<bar>" and "\<bar>x\<bar> < pow2 (\<lfloor>log 2 \<bar>x\<bar>\<rfloor> + 1)"
proof -
  have "0 < \<bar>x\<bar>" using assms by simp
  from floor_log_eq_powr_iff[OF this, of 2 "\<lfloor>log 2 \<bar>x\<bar>\<rfloor>"]
  show "pow2 \<lfloor>log 2 \<bar>x\<bar>\<rfloor> \<le> \<bar>x\<bar>" and "\<bar>x\<bar> < pow2 (\<lfloor>log 2 \<bar>x\<bar>\<rfloor> + 1)"
    by (simp_all add: pow2_powr)
qed

lemma floor_log2_eq:
  assumes "pow2 e \<le> \<bar>x\<bar>" "\<bar>x\<bar> < pow2 (e + 1)"
  shows "\<lfloor>log 2 \<bar>x\<bar>\<rfloor> = e"
proof -
  have "0 < \<bar>x\<bar>" using assms(1) pow2_pos[of e] by linarith
  from floor_log_eq_powr_iff[OF this, of 2 e] assms show ?thesis
    by (simp add: pow2_powr)
qed

lemma floor_log2_ge:
  assumes "pow2 j \<le> \<bar>x\<bar>"
  shows "j \<le> \<lfloor>log 2 \<bar>x\<bar>\<rfloor>"
proof (rule ccontr)
  assume "\<not> j \<le> \<lfloor>log 2 \<bar>x\<bar>\<rfloor>"
  then have "\<lfloor>log 2 \<bar>x\<bar>\<rfloor> + 1 \<le> j" by simp
  then have "pow2 (\<lfloor>log 2 \<bar>x\<bar>\<rfloor> + 1) \<le> pow2 j" by (rule pow2_mono)
  moreover have "x \<noteq> 0" using assms pow2_pos[of j] by auto
  ultimately show False using floor_log2_bounds(2)[of x] assms by linarith
qed

lemma expo_upper: "x \<noteq> 0 \<Longrightarrow> \<bar>x\<bar> < pow2 (expo x + 1)"
proof -
  assume x: "x \<noteq> 0"
  have "\<lfloor>log 2 \<bar>x\<bar>\<rfloor> + 1 \<le> expo x + 1" by (simp add: expo_def)
  then have "pow2 (\<lfloor>log 2 \<bar>x\<bar>\<rfloor> + 1) \<le> pow2 (expo x + 1)" by (rule pow2_mono)
  with floor_log2_bounds(2)[OF x] show ?thesis by linarith
qed

lemma expo_normal:
  assumes "pow2 (- 1022) \<le> \<bar>x\<bar>"
  shows "expo x = \<lfloor>log 2 \<bar>x\<bar>\<rfloor>" and "pow2 (expo x) \<le> \<bar>x\<bar>"
proof -
  have x: "x \<noteq> 0" using assms pow2_pos[of "- 1022"] by auto
  have "- 1022 \<le> \<lfloor>log 2 \<bar>x\<bar>\<rfloor>" using assms by (rule floor_log2_ge)
  then show "expo x = \<lfloor>log 2 \<bar>x\<bar>\<rfloor>" by (simp add: expo_def)
  then show "pow2 (expo x) \<le> \<bar>x\<bar>" using floor_log2_bounds(1)[OF x] by simp
qed

lemma expo_eq:
  assumes "pow2 e \<le> \<bar>x\<bar>" "\<bar>x\<bar> < pow2 (e + 1)" "- 1022 \<le> e"
  shows "expo x = e"
  using floor_log2_eq[OF assms(1,2)] assms(3) by (simp add: expo_def)

lemma expo_ge_pow:
  assumes "pow2 j \<le> \<bar>x\<bar>"
  shows "j \<le> expo x"
  using floor_log2_ge[OF assms] by (simp add: expo_def)

lemma round_even_cases:
  "round_even q = \<lfloor>q\<rfloor> \<and> q - of_int \<lfloor>q\<rfloor> \<le> 1 / 2 \<or>
   round_even q = \<lfloor>q\<rfloor> + 1 \<and> 1 / 2 \<le> q - of_int \<lfloor>q\<rfloor>"
  by (auto simp: round_even_def)

lemma round_even_err: "\<bar>of_int (round_even q) - q\<bar> \<le> 1 / 2"
proof -
  have "of_int \<lfloor>q\<rfloor> \<le> q" "q < of_int \<lfloor>q\<rfloor> + 1" by linarith+
  with round_even_cases[of q] show ?thesis by (auto simp: abs_le_iff)
qed

lemma round_even_nearest: "\<bar>of_int (round_even q) - q\<bar> \<le> \<bar>of_int j - q\<bar>"
proof (rule ccontr)
  assume "\<not> \<bar>of_int (round_even q) - q\<bar> \<le> \<bar>of_int j - q\<bar>"
  then have lt: "\<bar>of_int j - q\<bar> < \<bar>of_int (round_even q) - q\<bar>" by simp
  with round_even_err[of q] have j: "\<bar>of_int j - q\<bar> < 1 / 2" by linarith
  with round_even_err[of q] have "\<bar>(of_int j :: real) - of_int (round_even q)\<bar> < 1"
    by linarith
  then have "\<bar>j - round_even q\<bar> < 1"
    by (metis of_int_diff of_int_abs of_int_less_1_iff)
  then have "j = round_even q" by simp
  with lt show False by simp
qed

lemma round_even_of_int: "round_even (of_int j) = j"
  by (simp add: round_even_def)

lemma round_real_zero: "round_real 0 = 0"
  by (simp add: round_real_def)

lemma round_real_err:
  assumes "x \<noteq> 0"
  shows "\<bar>round_real x - x\<bar> \<le> pow2 (expo x - 52) / 2"
proof -
  let ?u = "pow2 (expo x - 52)"
  have u: "0 < ?u" by (rule pow2_pos)
  have "round_real x - x = (of_int (round_even (x / ?u)) - x / ?u) * ?u"
    using assms u by (simp add: round_real_def field_simps)
  then have "\<bar>round_real x - x\<bar> = \<bar>of_int (round_even (x / ?u)) - x / ?u\<bar> * ?u"
    using u by (simp add: abs_mult)
  also have "\<dots> \<le> (1 / 2) * ?u"
    by (rule mult_right_mono[OF round_even_err]) (use u in simp)
  finally show ?thesis by simp
qed

text \<open>The rounded value is at least as near as any multiple of the unit in the last place.\<close>

lemma round_real_nearest_multiple:
  assumes "x \<noteq> 0"
  shows "\<bar>round_real x - x\<bar> \<le> \<bar>of_int j * pow2 (expo x - 52) - x\<bar>"
proof -
  let ?u = "pow2 (expo x - 52)"
  have u: "0 < ?u" by (rule pow2_pos)
  have "\<bar>round_real x - x\<bar> = \<bar>of_int (round_even (x / ?u)) - x / ?u\<bar> * ?u"
  proof -
    have "round_real x - x = (of_int (round_even (x / ?u)) - x / ?u) * ?u"
      using assms u by (simp add: round_real_def field_simps)
    then show ?thesis using u by (simp add: abs_mult)
  qed
  also have "\<dots> \<le> \<bar>of_int j - x / ?u\<bar> * ?u"
    by (rule mult_right_mono[OF round_even_nearest]) (use u in simp)
  also have "\<dots> = \<bar>of_int j * ?u - x\<bar>"
  proof -
    have "of_int j * ?u - x = (of_int j - x / ?u) * ?u" using u by (simp add: field_simps)
    then show ?thesis using u by (simp add: abs_mult)
  qed
  finally show ?thesis .
qed

text \<open>A number with at most 53 significant bits and an exponent in range is its own rounding.\<close>

lemma round_real_fix:
  assumes "\<bar>m\<bar> < 2 ^ 53" "- 1074 \<le> k"
  shows "round_real (of_int m * pow2 k) = of_int m * pow2 k"
proof (cases "m = 0")
  case True
  then show ?thesis by (simp add: round_real_def)
next
  case False
  define x where "x = of_int m * pow2 k"
  define e where "e = expo x"
  have x: "x \<noteq> 0" using False pow2_pos[of k] by (simp add: x_def)
  have "\<bar>x\<bar> = of_int \<bar>m\<bar> * pow2 k" using pow2_pos[of k] by (simp add: x_def abs_mult)
  also have "\<dots> < 2 ^ 53 * pow2 k"
  proof (rule mult_strict_right_mono)
    have "(of_int \<bar>m\<bar> :: real) < of_int (2 ^ 53)" using assms(1) by (simp only: of_int_less_iff)
    then show "(of_int \<bar>m\<bar> :: real) < 2 ^ 53" by simp
  qed (rule pow2_pos)
  also have "\<dots> = pow2 (53 + k)"
  proof -
    have "pow2 53 = 2 ^ 53" by (simp add: pow2_def)
    then show ?thesis by (simp only: pow2_add)
  qed
  finally have lt: "\<bar>x\<bar> < pow2 (53 + k)" .
  have "\<lfloor>log 2 \<bar>x\<bar>\<rfloor> < 53 + k"
  proof (rule ccontr)
    assume "\<not> \<lfloor>log 2 \<bar>x\<bar>\<rfloor> < 53 + k"
    then have "pow2 (53 + k) \<le> pow2 \<lfloor>log 2 \<bar>x\<bar>\<rfloor>" by (intro pow2_mono) simp
    with floor_log2_bounds(1)[OF x] lt show False by linarith
  qed
  then have e: "e - 52 \<le> k" using assms(2) by (simp add: e_def expo_def)
  define d where "d = nat (k - (e - 52))"
  have "pow2 k = pow2 (k - (e - 52)) * pow2 (e - 52)" by (rule pow2_diff)
  also have "pow2 (k - (e - 52)) = of_int (2 ^ d)"
    unfolding d_def by (rule pow2_int) (use e in simp)
  finally have pk: "pow2 k = of_int (2 ^ d) * pow2 (e - 52)" .
  have "x / pow2 (e - 52) = of_int (m * 2 ^ d)"
    using pow2_pos[of "e - 52"] by (simp add: x_def pk)
  then have "round_even (x / pow2 (e - 52)) = m * 2 ^ d"
    by (simp only: round_even_of_int)
  then have "round_real x = of_int (m * 2 ^ d) * pow2 (e - 52)"
    using x by (simp add: round_real_def e_def)
  also have "\<dots> = x" by (simp add: x_def pk)
  finally show ?thesis by (simp only: x_def)
qed

text \<open>A fixed point of the rounding is a multiple of each unit that is not above its own.\<close>

lemma fixed_multiple:
  assumes "round_real a = a" "a \<noteq> 0" "j \<le> expo a"
  shows "\<exists>i. a = of_int i * pow2 (j - 52)"
proof -
  define n where "n = round_even (a / pow2 (expo a - 52))"
  have a: "a = of_int n * pow2 (expo a - 52)"
    using assms(1,2) by (simp add: round_real_def n_def)
  define d where "d = nat (expo a - j)"
  have "pow2 (expo a - 52) = pow2 (expo a - 52 - (j - 52)) * pow2 (j - 52)" by (rule pow2_diff)
  also have "pow2 (expo a - 52 - (j - 52)) = of_int (2 ^ d)"
    unfolding d_def using pow2_int[of "expo a - j"] assms(3) by simp
  finally have "a = of_int (n * 2 ^ d) * pow2 (j - 52)" using a by simp
  then show ?thesis ..
qed

text \<open>Rounding goes to a nearest binary64 number.\<close>

lemma round_real_nearest:
  assumes "round_real a = a"
  shows "\<bar>round_real x - x\<bar> \<le> \<bar>a - x\<bar>"
proof (cases "x = 0")
  case True
  then show ?thesis by (simp add: round_real_def)
next
  case x: False
  show ?thesis
  proof (cases "a = 0")
    case True
    from round_real_nearest_multiple[OF x, of 0] True show ?thesis by simp
  next
    case a: False
    show ?thesis
    proof (cases "expo x \<le> expo a")
      case True
      from fixed_multiple[OF assms a True] obtain i where "a = of_int i * pow2 (expo x - 52)" ..
      with round_real_nearest_multiple[OF x, of i] show ?thesis by simp
    next
      case False
      then have lt: "expo a + 1 \<le> expo x" by simp
      have "- 1022 < expo x" using expo_ge[of a] False by linarith
      then have ex: "expo x = \<lfloor>log 2 \<bar>x\<bar>\<rfloor>" by (simp add: expo_def)
      have lo: "pow2 (expo x) \<le> \<bar>x\<bar>" unfolding ex by (rule floor_log2_bounds(1)[OF x])
      have "\<bar>a\<bar> < pow2 (expo a + 1)" by (rule expo_upper[OF a])
      also have "\<dots> \<le> pow2 (expo x)" using lt by (rule pow2_mono)
      finally have al: "\<bar>a\<bar> < pow2 (expo x)" .
      have p: "pow2 (expo x) = of_int (2 ^ 52) * pow2 (expo x - 52)"
        using pow2_diff[of "expo x" "expo x - 52"] by (simp add: pow2_def)
      show ?thesis
      proof (cases "0 < x")
        case True
        from round_real_nearest_multiple[OF x, of "2 ^ 52"]
        have "\<bar>round_real x - x\<bar> \<le> \<bar>pow2 (expo x) - x\<bar>" by (simp only: p)
        also have "\<dots> \<le> \<bar>a - x\<bar>" using True lo al by (simp add: abs_if split: if_splits)
        finally show ?thesis .
      next
        case False
        from round_real_nearest_multiple[OF x, of "- (2 ^ 52)"]
        have "\<bar>round_real x - x\<bar> \<le> \<bar>- pow2 (expo x) - x\<bar>" using p by simp
        also have "\<dots> \<le> \<bar>a - x\<bar>" using False x lo al by (simp add: abs_if split: if_splits)
        finally show ?thesis .
      qed
    qed
  qed
qed

lemma round_real_lower:
  assumes "round_real a = a" "a \<le> x"
  shows "a \<le> round_real x"
  using round_real_nearest[OF assms(1), of x] assms(2) by (simp add: abs_if split: if_splits)

lemma round_real_upper:
  assumes "round_real a = a" "x \<le> a"
  shows "round_real x \<le> a"
  using round_real_nearest[OF assms(1), of x] assms(2) by (simp add: abs_if split: if_splits)

lemma round_real_idem: "round_real (round_real x) = round_real x"
proof (cases "x = 0")
  case True
  then show ?thesis by (simp add: round_real_def)
next
  case False
  define n where "n = round_even (x / pow2 (expo x - 52))"
  have r: "round_real x = of_int n * pow2 (expo x - 52)"
    using False by (simp add: round_real_def n_def)
  have "\<bar>x / pow2 (expo x - 52)\<bar> < 2 ^ 53"
  proof -
    have "\<bar>x\<bar> < pow2 (expo x + 1)" by (rule expo_upper[OF False])
    also have "\<dots> = 2 ^ 53 * pow2 (expo x - 52)"
      using pow2_diff[of "expo x + 1" "expo x - 52"] by (simp add: pow2_def)
    finally show ?thesis using pow2_pos[of "expo x - 52"]
      by (simp add: abs_divide pos_divide_less_eq)
  qed
  with round_even_err[of "x / pow2 (expo x - 52)"]
  have "\<bar>(of_int n :: real)\<bar> < 2 ^ 53 + 1 / 2 + 1 / 2" unfolding n_def by linarith
  then have "(of_int \<bar>n\<bar> :: real) < of_int (2 ^ 53 + 1)" by simp
  then have "\<bar>n\<bar> < 2 ^ 53 + 1" by (simp only: of_int_less_iff)
  then have n: "\<bar>n\<bar> \<le> 2 ^ 53" by simp
  have k: "- 1074 \<le> expo x - 52" using expo_ge[of x] by simp
  show ?thesis
  proof (cases "\<bar>n\<bar> = 2 ^ 53")
    case True
    then have n2: "n = 2 ^ 53 \<or> n = - (2 ^ 53)" by linarith
    have "pow2 1 = 2" by (simp add: pow2_def)
    then have "pow2 (expo x - 52 + 1) = pow2 (expo x - 52) * 2" by (simp only: pow2_add)
    with n2 have "of_int n * pow2 (expo x - 52) = of_int (n div 2) * pow2 (expo x - 52 + 1)"
      by auto
    moreover have "\<bar>n div 2\<bar> < 2 ^ 53" using n2 by auto
    ultimately show ?thesis
      unfolding r using round_real_fix[of "n div 2" "expo x - 52 + 1"] k by simp
  next
    case False
    with n have "\<bar>n\<bar> < 2 ^ 53" by simp
    then show ?thesis unfolding r by (rule round_real_fix[OF _ k])
  qed
qed

text \<open>The relative error of a rounding in the normal range.\<close>

lemma round_real_rel:
  assumes "pow2 (- 1022) \<le> \<bar>x\<bar>"
  shows "\<bar>round_real x - x\<bar> \<le> \<bar>x\<bar> / 2 ^ 53"
proof -
  have x: "x \<noteq> 0" using assms pow2_pos[of "- 1022"] by auto
  have "\<bar>round_real x - x\<bar> \<le> pow2 (expo x - 52) / 2" by (rule round_real_err[OF x])
  also have "pow2 (expo x - 52) / 2 = pow2 (expo x) / 2 ^ 53"
    using pow2_diff[of "expo x" "expo x - 52"] by (simp add: pow2_def)
  also have "\<dots> \<le> \<bar>x\<bar> / 2 ^ 53"
    using expo_normal(2)[OF assms] by (simp add: divide_right_mono)
  finally show ?thesis .
qed

text \<open>Evaluating a rounding once the binade is known.\<close>

lemma round_real_eval:
  assumes "pow2 e \<le> \<bar>x\<bar>" "\<bar>x\<bar> < pow2 (e + 1)" "- 1022 \<le> e"
  shows "round_real x = of_int (round_even (x / pow2 (e - 52))) * pow2 (e - 52)"
proof -
  have "x \<noteq> 0" using assms(1) pow2_pos[of e] by auto
  then show ?thesis by (simp add: round_real_def expo_eq[OF assms])
qed

lemma round_real_eval_subnormal:
  assumes "x \<noteq> 0" "\<bar>x\<bar> < pow2 (- 1022)"
  shows "round_real x = of_int (round_even (x / pow2 (- 1074))) * pow2 (- 1074)"
proof -
  have "\<lfloor>log 2 \<bar>x\<bar>\<rfloor> < - 1022"
  proof (rule ccontr)
    assume "\<not> \<lfloor>log 2 \<bar>x\<bar>\<rfloor> < - 1022"
    then have "pow2 (- 1022) \<le> pow2 \<lfloor>log 2 \<bar>x\<bar>\<rfloor>" by (intro pow2_mono) simp
    with floor_log2_bounds(1)[OF assms(1)] assms(2) show False by linarith
  qed
  then have "expo x = - 1022" by (simp add: expo_def)
  then show ?thesis using assms(1) by (simp add: round_real_def)
qed

lemma round_real_repr:
  "\<exists>m k. round_real x = of_int m * pow2 k \<and> \<bar>m\<bar> < 2 ^ 53 \<and> - 1074 \<le> k"
proof (cases "x = 0")
  case True
  have "round_real x = of_int 0 * pow2 0 \<and> \<bar>0::int\<bar> < 2 ^ 53 \<and> - 1074 \<le> (0::int)"
    using True by (simp add: round_real_def)
  then show ?thesis by blast
next
  case False
  define e where "e = expo x"
  define n where "n = round_even (x / pow2 (e - 52))"
  have r: "round_real x = of_int n * pow2 (e - 52)"
    using False by (simp add: round_real_def n_def e_def)
  have "\<bar>x / pow2 (e - 52)\<bar> < 2 ^ 53"
  proof -
    have "\<bar>x\<bar> < pow2 (e + 1)" unfolding e_def by (rule expo_upper[OF False])
    also have "\<dots> = 2 ^ 53 * pow2 (e - 52)"
    proof -
      have "pow2 53 = 2 ^ 53" by (simp add: pow2_def)
      moreover have "e + 1 = 53 + (e - 52)" by simp
      ultimately show ?thesis by (simp only: pow2_add)
    qed
    finally show ?thesis using pow2_pos[of "e - 52"]
      by (simp add: abs_divide pos_divide_less_eq)
  qed
  with round_even_err[of "x / pow2 (e - 52)"]
  have "\<bar>(of_int n :: real)\<bar> < 2 ^ 53 + 1 / 2 + 1 / 2" unfolding n_def by linarith
  then have "(of_int \<bar>n\<bar> :: real) < of_int (2 ^ 53 + 1)" by simp
  then have "\<bar>n\<bar> < 2 ^ 53 + 1" by (simp only: of_int_less_iff)
  then have n: "\<bar>n\<bar> \<le> 2 ^ 53" by simp
  have k: "- 1074 \<le> e - 52" using expo_ge[of x] by (simp add: e_def)
  show ?thesis
  proof (cases "\<bar>n\<bar> = 2 ^ 53")
    case True
    then have n2: "n = 2 ^ 53 \<or> n = - (2 ^ 53)" by linarith
    have "pow2 1 = 2" by (simp add: pow2_def)
    then have "pow2 (e - 52 + 1) = pow2 (e - 52) * 2" by (simp only: pow2_add)
    with n2 have "of_int n * pow2 (e - 52) = of_int (n div 2) * pow2 (e - 52 + 1)"
      by auto
    moreover have "\<bar>n div 2\<bar> < 2 ^ 53" using n2 by auto
    moreover have "- 1074 \<le> e - 52 + 1" using k by simp
    ultimately show ?thesis unfolding r by metis
  next
    case False
    with n have "\<bar>n\<bar> < 2 ^ 53" by simp
    with r k show ?thesis by blast
  qed
qed

lemma round_real_minus_fixed:
  assumes "round_real a = a"
  shows "round_real (- a) = - a"
proof -
  from round_real_repr[of a] assms obtain m k where
    a: "a = of_int m * pow2 k" and m: "\<bar>m\<bar> < 2 ^ 53" and k: "- 1074 \<le> k" by metis
  have "- a = of_int (- m) * pow2 k" by (simp add: a)
  moreover have "\<bar>- m\<bar> < 2 ^ 53" using m by simp
  ultimately show ?thesis using round_real_fix[OF _ k, of "- m"] by simp
qed

lemma round_real_abs_fixed:
  assumes "round_real a = a"
  shows "round_real \<bar>a\<bar> = \<bar>a\<bar>"
  using assms round_real_minus_fixed[OF assms] by (cases "0 \<le> a") simp_all

section \<open>Properties of binary64 rounding\<close>

lemma round64_FiniteD:
  assumes "round64 x = Finite r"
  shows "r = round_real x" and "\<bar>r\<bar> < 2 ^ 1024" and "round_real r = r"
proof -
  from assms show r: "r = round_real x"
    by (auto simp: round64_def split: if_splits)
  from assms show "\<bar>r\<bar> < 2 ^ 1024"
    by (auto simp: round64_def split: if_splits)
  show "round_real r = r" unfolding r by (rule round_real_idem)
qed

lemma round64_FiniteI:
  assumes "round_real a = a" "\<bar>a\<bar> < 2 ^ 1024"
  shows "round64 a = Finite a"
  using assms by (simp add: round64_def abs_less_iff)

lemma round64_idem: "round64 x = Finite r \<Longrightarrow> round64 r = Finite r"
  using round64_FiniteD[of x r] by (intro round64_FiniteI) simp_all

lemma round64_fix:
  assumes "\<bar>m\<bar> < 2 ^ 53" "- 1074 \<le> k" "\<bar>of_int m * pow2 k\<bar> < 2 ^ 1024"
  shows "round64 (of_int m * pow2 k) = Finite (of_int m * pow2 k)"
  by (rule round64_FiniteI[OF round_real_fix[OF assms(1,2)] assms(3)])

lemma round_real_int:
  assumes "\<bar>n\<bar> \<le> 2 ^ 53"
  shows "round_real (of_int n) = of_int n"
proof (cases "\<bar>n\<bar> = 2 ^ 53")
  case True
  then have n2: "n = 2 ^ 53 \<or> n = - (2 ^ 53)" by linarith
  have p: "pow2 1 = 2" by (simp add: pow2_def)
  from n2 have "(of_int n :: real) = of_int (n div 2) * pow2 1" unfolding p by auto
  moreover have "\<bar>n div 2\<bar> < 2 ^ 53" using n2 by auto
  ultimately show ?thesis using round_real_fix[of "n div 2" 1] by simp
next
  case False
  with assms have "\<bar>n\<bar> < 2 ^ 53" by simp
  from round_real_fix[OF this, of 0] show ?thesis by (simp add: pow2_def)
qed

lemma round64_int:
  assumes "\<bar>n\<bar> \<le> 2 ^ 53"
  shows "round64 (of_int n) = Finite (of_int n)"
proof (rule round64_FiniteI[OF round_real_int[OF assms]])
  have "(of_int \<bar>n\<bar> :: real) \<le> of_int (2 ^ 53)" using assms by (simp only: of_int_le_iff)
  then show "\<bar>(of_int n :: real)\<bar> < 2 ^ 1024" by simp
qed

lemma round64_minus_fixed:
  assumes "round64 a = Finite a"
  shows "round64 (- a) = Finite (- a)"
  using round64_FiniteD(2,3)[OF assms] by (intro round64_FiniteI round_real_minus_fixed) simp_all

lemma round64_abs_fixed:
  assumes "round64 a = Finite a"
  shows "round64 \<bar>a\<bar> = Finite \<bar>a\<bar>"
  using assms round64_minus_fixed[OF assms] by (cases "0 \<le> a") simp_all

text \<open>A rounding stays between the binary64 numbers that enclose the exact value.\<close>

lemma round64_between:
  assumes "round64 a = Finite a" "round64 b = Finite b" "a \<le> x" "x \<le> b"
  shows "\<exists>r. round64 x = Finite r \<and> a \<le> r \<and> r \<le> b"
proof -
  have lo: "a \<le> round_real x"
    by (rule round_real_lower[OF round64_FiniteD(3)[OF assms(1)] assms(3)])
  have hi: "round_real x \<le> b"
    by (rule round_real_upper[OF round64_FiniteD(3)[OF assms(2)] assms(4)])
  have "\<bar>a\<bar> < 2 ^ 1024" "\<bar>b\<bar> < 2 ^ 1024"
    using round64_FiniteD(2)[OF assms(1)] round64_FiniteD(2)[OF assms(2)] by simp_all
  with lo hi have "round64 x = Finite (round_real x)"
    by (simp add: round64_def abs_less_iff)
  with lo hi show ?thesis by blast
qed

lemma round64_lower:
  assumes "round64 a = Finite a" "a \<le> x"
  shows "round64 x = PosInf \<or> (\<exists>r. round64 x = Finite r \<and> a \<le> r)"
proof -
  have lo: "a \<le> round_real x"
    by (rule round_real_lower[OF round64_FiniteD(3)[OF assms(1)] assms(2)])
  have "- (2 ^ 1024) < a" using round64_FiniteD(2)[OF assms(1)] by (simp add: abs_less_iff)
  with lo show ?thesis by (simp add: round64_def)
qed


lemma round64_upper_Finite:
  assumes "round64 b = Finite b" "x \<le> b" "round64 x = Finite r"
  shows "r \<le> b"
  using round_real_upper[OF round64_FiniteD(3)[OF assms(1)] assms(2)]
    round64_FiniteD(1)[OF assms(3)] by simp

lemma round64_zero: "round64 0 = Finite 0"
  by (simp add: round64_def round_real_def)

lemma round64_one: "round64 1 = Finite 1"
  using round64_int[of 1] by simp


lemma round64_rel:
  assumes "round64 x = Finite r" "pow2 (- 1022) \<le> \<bar>x\<bar>"
  shows "\<bar>r - x\<bar> \<le> \<bar>x\<bar> / 2 ^ 53"
  using round_real_rel[OF assms(2)] round64_FiniteD(1)[OF assms(1)] by simp

lemma round_even_near:
  assumes "\<bar>q - of_int n\<bar> < 1 / 2"
  shows "round_even q = n"
proof -
  have a: "\<bar>of_int (round_even q) - q\<bar> \<le> 1 / 2" by (rule round_even_err)
  from a assms have "\<bar>(of_int (round_even q) :: real) - of_int n\<bar> < 1" by linarith
  then have "\<bar>(of_int (round_even q - n) :: real)\<bar> < of_int 1" by simp
  then have "(of_int \<bar>round_even q - n\<bar> :: real) < of_int 1" by (simp only: of_int_abs)
  then have "\<bar>round_even q - n\<bar> < 1" by (simp only: of_int_less_iff)
  then show ?thesis by simp
qed

lemma round_even_tie:
  assumes "q = of_int n + 1 / 2"
  shows "round_even q = (if even n then n else n + 1)"
proof -
  have "\<lfloor>q\<rfloor> = n" unfolding assms by linarith
  then show ?thesis by (simp add: round_even_def assms)
qed

lemma round64_near:
  assumes "pow2 e \<le> \<bar>x\<bar>" "\<bar>x\<bar> < pow2 (e + 1)" "- 1022 \<le> e"
    and "\<bar>x / pow2 (e - 52) - of_int n\<bar> < 1 / 2"
    and "\<bar>of_int n * pow2 (e - 52)\<bar> < 2 ^ 1024"
  shows "round64 x = Finite (of_int n * pow2 (e - 52))"
proof -
  have "round_real x = of_int n * pow2 (e - 52)"
    using round_real_eval[OF assms(1-3)] round_even_near[OF assms(4)] by simp
  with assms(5) show ?thesis by (simp add: round64_def abs_less_iff)
qed

lemma round64_tie:
  assumes "pow2 e \<le> \<bar>x\<bar>" "\<bar>x\<bar> < pow2 (e + 1)" "- 1022 \<le> e"
    and "x / pow2 (e - 52) = of_int n + 1 / 2"
    and "\<bar>of_int (if even n then n else n + 1) * pow2 (e - 52)\<bar> < 2 ^ 1024"
  shows "round64 x = Finite (of_int (if even n then n else n + 1) * pow2 (e - 52))"
proof -
  have "round_real x = of_int (if even n then n else n + 1) * pow2 (e - 52)"
    using round_real_eval[OF assms(1-3)] round_even_tie[OF assms(4)] by simp
  with assms(5) show ?thesis by (simp only: round64_def abs_less_iff) simp
qed

lemma two_pi_eq: "two_pi = Finite (2 * pi64)"
proof -
  have "round64 (of_int 884279719003555 * pow2 (- 47)) = Finite (of_int 884279719003555 * pow2 (- 47))"
    by (rule round64_fix) (simp_all add: pow2_def)
  then show ?thesis by (simp add: two_pi_def pi64_def pow2_def)
qed

lemma pi64_double: "round64 pi64 = Finite pi64"
proof -
  have "round64 (of_int 884279719003555 * pow2 (- 48)) = Finite (of_int 884279719003555 * pow2 (- 48))"
    by (rule round64_fix) (simp_all add: pow2_def)
  then show ?thesis by (simp add: pi64_def pow2_def)
qed

lemma round64_half: "round64 (1 / 2) = Finite (1 / 2)"
  using round64_fix[of 1 "- 1"] by (simp add: pow2_def)

lemma round64_numeral:
  assumes "(numeral w :: int) \<le> 2 ^ 53"
  shows "round64 (numeral w) = Finite (numeral w)"
    and "round64 (- numeral w) = Finite (- numeral w)"
  using round64_int[of "numeral w"] round64_int[of "- numeral w"] assms by simp_all

section \<open>Properties of the conversions\<close>


lemma to_float_double:
  assumes "round64 (of_int n) = Finite (of_int n)"
  shows "to_float n = Inr (Finite (of_int n))"
  using assms by (simp add: to_float_def)


lemma to_float_Inr:
  assumes "to_float n = Inr x"
  shows "\<exists>r. round64 (of_int n) = Finite r \<and> x = Finite r"
  using assms by (cases "round64 (of_int n)") (auto simp: to_float_def)

text \<open>The ceiling of a binary64 number is a binary64 number.\<close>

lemma ceiling_double:
  assumes "round64 a = Finite a"
  shows "round64 (of_int \<lceil>a\<rceil>) = Finite (of_int \<lceil>a\<rceil>)"
proof (cases "\<bar>a\<bar> < 2 ^ 52")
  case True
  then have "\<bar>a\<bar> < 4503599627370496" by simp
  then have "\<bar>\<lceil>a\<rceil>\<bar> \<le> 4503599627370496" by linarith
  then have "\<bar>\<lceil>a\<rceil>\<bar> \<le> 2 ^ 53" by simp
  then show ?thesis by (rule round64_int)
next
  case False
  then have big: "pow2 52 \<le> \<bar>a\<bar>" by (simp add: pow2_def)
  then have a0: "a \<noteq> 0" using pow2_pos[of 52] by auto
  from fixed_multiple[OF round64_FiniteD(3)[OF assms] a0 expo_ge_pow[OF big]]
  obtain i where "a = of_int i * pow2 (52 - 52)" by blast
  then have ai: "a = of_int i" by (simp add: pow2_def)
  have "(of_int \<lceil>a\<rceil> :: real) = a" unfolding ai by simp
  then show ?thesis using assms by (simp only:)
qed

lemma round64_nonneg:
  assumes "0 \<le> x"
  shows "round64 x = PosInf \<or> (\<exists>r. round64 x = Finite r \<and> 0 \<le> r)"
  by (rule round64_lower[OF round64_zero assms])


lemma py_trunc_nonneg: "0 \<le> x \<Longrightarrow> py_trunc x = \<lfloor>x\<rfloor>"
  by (simp add: py_trunc_def)

section \<open>The computation of the builder on valid parameters\<close>


section \<open>From the sample count to the buffer\<close>



lemma sample_times_linspace:
  assumes "adjusted_duration self fr = Inr dd" "num_samples self fr = Inr n"
  shows "sample_times self fr = linspace dd n"
  using assms by (simp add: sample_times_def)






lemma num_samples_eq:
  assumes "f \<noteq> 0"
    and "round64 (of_int (duration self)) = Finite d" "round64 (d * f) = Finite a"
    and "round64 (of_int \<lceil>a\<rceil> / f) = Finite b"
    and "round64 (of_int (sample_rate self)) = Finite r" "round64 (r * b) = Finite x"
  shows "num_periods self (Finite f) = Inr \<lceil>a\<rceil>"
    and "adjusted_duration self (Finite f) = Inr (Finite b)"
    and "num_samples self (Finite f) = Inr (py_trunc x)"
proof -
  show np: "num_periods self (Finite f) = Inr \<lceil>a\<rceil>"
    using assms(2,3) by (simp add: num_periods_def to_float_def)
  have pf: "to_float \<lceil>a\<rceil> = Inr (Finite (of_int \<lceil>a\<rceil>))"
    by (rule to_float_double[OF ceiling_double[OF round64_idem[OF assms(3)]]])
  show ad: "adjusted_duration self (Finite f) = Inr (Finite b)"
    using np pf assms(1,4) by (simp add: adjusted_duration_def)
  show "num_samples self (Finite f) = Inr (py_trunc x)"
    using ad assms(5,6) by (simp add: num_samples_def to_float_def)
qed









lemma round64_2_1023: "round64 (2 ^ 1023) = Finite (2 ^ 1023)"
  using round64_fix[of 1 1023] by (simp add: pow2_def)


lemma pi64_pos: "0 < pi64"
  by (simp add: pi64_def)

lemma square_func_zero: "square_func (Finite 0) = 1"
  using pi64_pos by (simp add: square_func_def two_pi_eq py_trunc_def)

lemma square_func_pi: "square_func (Finite pi64) = - 1"
proof -
  have "pi64 / (2 * pi64) = 1 / 2" using pi64_pos by simp
  then have "py_trunc (pi64 / (2 * pi64)) = 0" by (simp add: py_trunc_def)
  then show ?thesis using pi64_pos by (simp add: square_func_def two_pi_eq)
qed

lemma sawtooth_func_zero: "sawtooth_func (Finite 0) = Finite 0"
  using pi64_pos by (simp add: sawtooth_func_def two_pi_eq fsub_def round64_zero round64_half)

lemma triangle_func_zero: "triangle_func (Finite 0) = Finite (- 1)"
  using pi64_pos round64_minus_fixed[OF round64_one]
  by (simp add: triangle_func_def two_pi_eq fsub_def round64_zero round64_half)

text \<open>
  C4 (boundary values). In the source's convention the square wave is +1 at phase 0 and
  -1 at phase \<^verbatim>\<open>np.pi\<close>, the sawtooth is 0 at phase 0 and the triangle is -1 at phase 0.
\<close>

theorem shaper_boundary_values:
  "square_func (Finite 0) = 1 \<and> square_func (Finite pi64) = - 1 \<and>
   sawtooth_func (Finite 0) = Finite 0 \<and> triangle_func (Finite 0) = Finite (- 1)"
  by (simp only: square_func_zero square_func_pi sawtooth_func_zero triangle_func_zero simp_thms)







lemma upt_two: "[0..<2] = [0, Suc 0]"
  by (simp add: numeral_2_eq_2)

lemma generator_fields:
  "sample_rate (WaveformGenerator fsin sr d a) = sr"
  "duration (WaveformGenerator fsin sr d a) = d"
  "amplitude (WaveformGenerator fsin sr d a) = a"
  "wave_functions (WaveformGenerator fsin sr d a) = wave_function_dict fsin"
  by (simp_all add: WaveformGenerator_def)

lemma round64_two: "round64 2 = Finite 2"
  using round64_int[of 2] by simp

lemma linspace_one_two: "linspace (Finite 1) 2 = Inr [Finite 0, Finite (1 / 2)]"
  using round64_int[of 2] round64_int[of 0] round64_int[of 1]
  by (simp add: linspace_def upt_two round64_half round64_zero)






section \<open>The offset within a cycle\<close>

text \<open>
  The shapers subtract from the cycle count \<open>u\<close> the floor of the rounded \<open>u + 1 / 2\<close>.
  For a binary64 number \<open>u\<close> below \<open>2 ^ 52\<close> in magnitude that floor is the floor of the
  exact sum, except when \<open>u\<close> is just below \<open>1 / 2\<close> and the sum rounds to 1.
\<close>

lemma expo_less:
  assumes "x \<noteq> 0" "\<bar>x\<bar> < pow2 j" "- 1022 < j"
  shows "expo x < j"
proof -
  have "\<lfloor>log 2 \<bar>x\<bar>\<rfloor> < j"
  proof (rule ccontr)
    assume "\<not> \<lfloor>log 2 \<bar>x\<bar>\<rfloor> < j"
    then have "pow2 j \<le> pow2 \<lfloor>log 2 \<bar>x\<bar>\<rfloor>" by (intro pow2_mono) simp
    with floor_log2_bounds(1)[OF assms(1)] assms(2) show False by linarith
  qed
  with assms(3) show ?thesis by (simp add: expo_def)
qed

lemma round64_minus_half:
  assumes "- (1 / 2) - 1 / 2 ^ 54 \<le> x" "x \<le> - (1 / 2)"
  shows "round64 x = Finite (- (1 / 2))"
proof (cases "x = - (1 / 2) - 1 / 2 ^ 54")
  case True
  have "round64 x = Finite (of_int (if even (- (2 ^ 52) - 1 :: int) then - (2 ^ 52) - 1
                                    else - (2 ^ 52) - 1 + 1) * pow2 (- 1 - 52))"
    by (rule round64_tie) (simp_all add: True pow2_def)
  then show ?thesis by (simp add: pow2_def)
next
  case False
  with assms(1) have lo: "- (1 / 2) - 1 / 2 ^ 54 < x" by simp
  have "round64 x = Finite (of_int (- (2 ^ 52)) * pow2 (- 1 - 52))"
  proof (rule round64_near)
    show "pow2 (- 1) \<le> \<bar>x\<bar>" using assms(2) by (simp add: pow2_def)
    have "\<bar>x\<bar> < 1" using lo assms(2) by (simp add: abs_less_iff)
    then show "\<bar>x\<bar> < pow2 (- 1 + 1)" by (simp add: pow2_def)
    show "- 1022 \<le> (- 1 :: int)" by simp
    have "\<bar>x * 2 ^ 53 + 2 ^ 52\<bar> < 1 / 2" using lo assms(2) by (simp add: abs_less_iff)
    then show "\<bar>x / pow2 (- 1 - 52) - of_int (- (2 ^ 52))\<bar> < 1 / 2"
      by (simp add: pow2_def)
    show "\<bar>of_int (- (2 ^ 52)) * pow2 (- 1 - 52)\<bar> < 2 ^ 1024" by (simp add: pow2_def)
  qed
  then show ?thesis by (simp add: pow2_def)
qed

lemma cycle_floor:
  assumes "round_real u = u" "\<bar>u\<bar> < 2 ^ 52"
  shows "\<lfloor>round_real (u + 1 / 2)\<rfloor> = \<lfloor>u + 1 / 2\<rfloor> \<or>
         (round_real (u + 1 / 2) = 1 \<and> u + 1 / 2 < 1 \<and> 1 - 1 / 2 ^ 54 \<le> u + 1 / 2)"
proof -
  define w where "w = u + 1 / 2"
  define k0 where "k0 = \<lfloor>w\<rfloor>"
  define v where "v = round_real w"
  have wk: "of_int k0 \<le> w" "w < of_int k0 + 1" unfolding k0_def by linarith+
  have "\<bar>w\<bar> < 4503599627370497" using assms(2) unfolding w_def by simp
  then have "\<bar>k0\<bar> \<le> 4503599627370497" unfolding k0_def by linarith
  then have kb: "\<bar>k0\<bar> \<le> 2 ^ 53" "\<bar>k0 + 1\<bar> \<le> 2 ^ 53" by simp_all
  have fk: "round_real (of_int k0) = of_int k0" by (rule round_real_int[OF kb(1)])
  have fk1: "round_real (of_int (k0 + 1)) = of_int (k0 + 1)" by (rule round_real_int[OF kb(2)])
  have vlo: "of_int k0 \<le> v" unfolding v_def by (rule round_real_lower[OF fk wk(1)])
  have "w \<le> of_int (k0 + 1)" using wk(2) by simp
  from round_real_upper[OF fk1 this] have vhi: "v \<le> of_int k0 + 1" by (simp add: v_def)
  have near: "\<bar>v - w\<bar> \<le> \<bar>of_int k0 - w\<bar>" unfolding v_def by (rule round_real_nearest[OF fk])
  have good: "\<lfloor>v\<rfloor> = k0" if "v < of_int k0 + 1" using vlo that by linarith
  show ?thesis
  proof (cases "\<bar>u\<bar> < 1 / 2")
    case True
    then have w01: "0 < w" "w < 1" unfolding w_def by (simp_all add: abs_less_iff)
    then have k00: "k0 = 0" unfolding k0_def by linarith
    show ?thesis
    proof (cases "v < 1")
      case True
      then have "\<lfloor>v\<rfloor> = k0" using good k00 by simp
      then show ?thesis by (simp add: v_def w_def k0_def)
    next
      case False
      with vhi k00 have v1: "v = 1" by simp
      have w0: "w \<noteq> 0" using w01 by simp
      have "\<bar>w\<bar> < pow2 0" using w01 by (simp add: pow2_def)
      from expo_less[OF w0 this] have "expo w - 52 \<le> - 53" by simp
      then have "pow2 (expo w - 52) \<le> pow2 (- 53)" by (rule pow2_mono)
      with round_real_err[OF w0] have "\<bar>v - w\<bar> \<le> pow2 (- 53) / 2" by (simp add: v_def)
      then have "\<bar>1 - w\<bar> \<le> 1 / 18014398509481984" unfolding v1 by (simp add: pow2_def)
      then have "1 - 1 / 18014398509481984 \<le> w" by linarith
      then have "1 - 1 / 2 ^ 54 \<le> w" by simp
      with v1 w01 show ?thesis by (simp add: v_def w_def)
    qed
  next
    case False
    then have ubig: "pow2 (- 1) \<le> \<bar>u\<bar>" by (simp add: pow2_def)
    define e where "e = expo u"
    have u0: "u \<noteq> 0" using False by auto
    have e1: "- 1 \<le> e" unfolding e_def by (rule expo_ge_pow[OF ubig])
    have "pow2 (- 1022) \<le> pow2 (- 1)" by (rule pow2_mono) simp
    with ubig have "pow2 (- 1022) \<le> \<bar>u\<bar>" by linarith
    from expo_normal(2)[OF this] have elo: "pow2 e \<le> \<bar>u\<bar>" by (simp add: e_def)
    have ehi: "\<bar>u\<bar> < pow2 (e + 1)" unfolding e_def by (rule expo_upper[OF u0])
    have "\<bar>u\<bar> < pow2 52" using assms(2) by (simp add: pow2_def)
    from expo_less[OF u0 this] have e51: "e \<le> 51" by (simp add: e_def)
    from fixed_multiple[OF assms(1) u0, of e] obtain i where
      ui: "u = of_int i * pow2 (e - 52)" by (auto simp: e_def)
    have p53: "pow2 (e + 1) = 2 ^ 53 * pow2 (e - 52)"
    proof -
      have "pow2 53 = 2 ^ 53" by (simp add: pow2_def)
      moreover have "e + 1 = 53 + (e - 52)" by simp
      ultimately show ?thesis by (simp only: pow2_add)
    qed
    have pp: "0 < pow2 (e - 52)" by (rule pow2_pos)
    define h :: int where "h = 2 ^ nat (51 - e)"
    have hh: "of_int h * pow2 (e - 52) = 1 / 2"
    proof -
      have "pow2 (51 - e) = of_int h" unfolding h_def using e51 by (intro pow2_int) simp
      moreover have "pow2 (51 - e) * pow2 (e - 52) = pow2 (- 1)"
        using pow2_add[of "51 - e" "e - 52"] by simp
      ultimately show ?thesis by (simp add: pow2_def)
    qed
    have hpos: "0 < h" unfolding h_def by simp
    have "nat (51 - e) \<le> 52" using e1 by simp
    then have "(2::int) ^ nat (51 - e) \<le> 2 ^ 52" by (intro power_increasing) simp_all
    then have hle: "h \<le> 2 ^ 52" by (simp add: h_def)
    define j where "j = i + h"
    have wj: "w = of_int j * pow2 (e - 52)"
      unfolding w_def j_def using ui hh by (simp add: algebra_simps)
    have ib: "\<bar>i\<bar> < 2 ^ 53"
    proof -
      have "\<bar>of_int i * pow2 (e - 52)\<bar> < 2 ^ 53 * pow2 (e - 52)" using ehi ui p53 by simp
      then have "\<bar>of_int i :: real\<bar> * pow2 (e - 52) < 2 ^ 53 * pow2 (e - 52)"
        using pp by (simp add: abs_mult)
      then have "\<bar>of_int i :: real\<bar> < 2 ^ 53" using pp by simp
      then have "(of_int \<bar>i\<bar> :: real) < of_int (2 ^ 53)" by simp
      then show ?thesis by (simp only: of_int_less_iff)
    qed
    show ?thesis
    proof (cases "\<bar>j\<bar> < 2 ^ 53")
      case True
      have "- 1074 \<le> e - 52" using e1 by simp
      from round_real_fix[OF True this] have "v = w" by (simp add: v_def wj)
      then show ?thesis by (simp add: v_def w_def)
    next
      case jbig: False
      have ib': "\<bar>i\<bar> < 9007199254740992" using ib by simp
      have hle': "h \<le> 4503599627370496" using hle by simp
      have jbig': "\<not> \<bar>j\<bar> < 9007199254740992" using jbig by simp
      have ipos: "0 < i"
      proof (rule ccontr)
        assume "\<not> 0 < i"
        then have "\<bar>j\<bar> < 9007199254740992" using ib' hle' hpos unfolding j_def by linarith
        with jbig' show False by simp
      qed
      then have "9007199254740992 \<le> j" using jbig' hpos unfolding j_def by linarith
      then have jpos: "2 ^ 53 \<le> j" by simp
      have upos: "0 < u" unfolding ui using ipos pp by simp
      define P :: int where "P = 2 ^ nat (e + 1)"
      have PP: "pow2 (e + 1) = of_int P" unfolding P_def using e1 by (intro pow2_int) simp
      have "(of_int (2 ^ 53) :: real) \<le> of_int j" using jpos by (simp only: of_int_le_iff)
      then have "(2 ^ 53 :: real) \<le> of_int j" by simp
      then have "2 ^ 53 * pow2 (e - 52) \<le> of_int j * pow2 (e - 52)"
        using pp by (intro mult_right_mono) simp_all
      then have wP: "of_int P \<le> w" using p53 PP wj by simp
      have "u < of_int P" using ehi upos PP by simp
      then have wP2: "w < of_int P + 1 / 2" by (simp add: w_def)
      have "k0 = P" unfolding k0_def using wP wP2 by linarith
      then have "\<bar>of_int k0 - w\<bar> < 1 / 2" using wP wP2 by simp
      with near have "v < w + 1 / 2" by linarith
      with wP2 \<open>k0 = P\<close> have "v < of_int k0 + 1" by simp
      from good[OF this] show ?thesis by (simp add: v_def w_def k0_def)
    qed
  qed
qed

lemma round64_minus_half_double: "round64 (- (1 / 2)) = Finite (- (1 / 2))"
  by (rule round64_minus_fixed[OF round64_half])

lemma cycle_offset_bound:
  assumes "round64 u = Finite u" "\<bar>u\<bar> < 2 ^ 52"
  shows "\<exists>v d. round64 (u + 1 / 2) = Finite v \<and> round64 (u - of_int \<lfloor>v\<rfloor>) = Finite d \<and>
               \<bar>d\<bar> \<le> 1 / 2"
proof -
  define w where "w = u + 1 / 2"
  have "\<bar>w\<bar> \<le> 4503599627370497" using assms(2) unfolding w_def by simp
  then have "- 4503599627370497 \<le> w" "w \<le> 4503599627370497" by (simp_all add: abs_le_iff)
  from round64_between[OF _ _ this] round64_int[of "- 4503599627370497"]
    round64_int[of 4503599627370497]
  obtain v where v: "round64 w = Finite v" by auto
  then have vr: "v = round_real (u + 1 / 2)" using round64_FiniteD(1) by (simp add: w_def)
  from cycle_floor[OF round64_FiniteD(3)[OF assms(1)] assms(2)]
  have "\<exists>d. round64 (u - of_int \<lfloor>v\<rfloor>) = Finite d \<and> \<bar>d\<bar> \<le> 1 / 2"
  proof
    assume "\<lfloor>round_real (u + 1 / 2)\<rfloor> = \<lfloor>u + 1 / 2\<rfloor>"
    then have fl: "\<lfloor>v\<rfloor> = \<lfloor>u + 1 / 2\<rfloor>" by (simp add: vr)
    have "- (1 / 2) \<le> u - of_int \<lfloor>v\<rfloor>" "u - of_int \<lfloor>v\<rfloor> \<le> 1 / 2"
      unfolding fl by linarith+
    from round64_between[OF round64_minus_half_double round64_half this]
    show ?thesis by (auto simp: abs_le_iff)
  next
    assume a: "round_real (u + 1 / 2) = 1 \<and> u + 1 / 2 < 1 \<and> 1 - 1 / 2 ^ 54 \<le> u + 1 / 2"
    then have v1: "v = 1" by (simp add: vr)
    have "round64 (u - 1) = Finite (- (1 / 2))"
      by (rule round64_minus_half) (use a in simp_all)
    then show ?thesis by (simp add: v1)
  qed
  with v show ?thesis by (auto simp: w_def)
qed

section \<open>Bounds of the samples\<close>

lemma fdiv_two_pi_double:
  assumes "fdiv x two_pi = Finite u"
  shows "round64 u = Finite u"
proof (cases x)
  case (Finite r)
  have "2 * pi64 \<noteq> 0" by (simp add: pi64_def)
  with assms Finite have "round64 (r / (2 * pi64)) = Finite u" by (simp add: two_pi_eq)
  then show ?thesis by (rule round64_idem)
qed (use assms in \<open>simp_all add: two_pi_eq split: if_splits\<close>)

lemma round64_two_double: "round64 2 = Finite 2"
  using round64_int[of 2] by simp

lemma round64_minus_one: "round64 (- 1) = Finite (- 1)"
  using round64_int[of "- 1"] by simp

lemma triangle_bound:
  assumes "fdiv x two_pi = Finite u" "\<bar>u\<bar> < 2 ^ 52"
  shows "\<exists>y. triangle_func x = Finite y \<and> \<bar>y\<bar> \<le> 1"
proof -
  from cycle_offset_bound[OF fdiv_two_pi_double[OF assms(1)] assms(2)] obtain v d where
    v: "round64 (u + 1 / 2) = Finite v" and d: "round64 (u - of_int \<lfloor>v\<rfloor>) = Finite d"
    and db: "\<bar>d\<bar> \<le> 1 / 2" by blast
  have "- 1 \<le> 2 * d" "2 * d \<le> 1" using db by (simp_all add: abs_le_iff)
  from round64_between[OF round64_minus_one round64_one this] obtain a where
    a: "round64 (2 * d) = Finite a" and ab: "- 1 \<le> a" "a \<le> 1" by blast
  have "0 \<le> 2 * \<bar>a\<bar>" "2 * \<bar>a\<bar> \<le> 2" using ab by (simp_all add: abs_le_iff)
  from round64_between[OF round64_zero round64_two_double this] obtain b where
    b: "round64 (2 * \<bar>a\<bar>) = Finite b" and bb: "0 \<le> b" "b \<le> 2" by blast
  have "- 1 \<le> b - 1" "b - 1 \<le> 1" using bb by simp_all
  from round64_between[OF round64_minus_one round64_one this] obtain y where
    y: "round64 (b - 1) = Finite y" and yb: "- 1 \<le> y" "y \<le> 1" by blast
  have "triangle_func x = Finite y"
    by (simp add: triangle_func_def assms(1) fsub_def v d a b y)
  with yb show ?thesis by (simp add: abs_le_iff)
qed

lemma sawtooth_bound:
  assumes "fdiv x two_pi = Finite u" "\<bar>u\<bar> < 2 ^ 52"
  shows "\<exists>y. sawtooth_func x = Finite y \<and> \<bar>y\<bar> \<le> 1"
proof -
  from cycle_offset_bound[OF fdiv_two_pi_double[OF assms(1)] assms(2)] obtain v d where
    v: "round64 (u + 1 / 2) = Finite v" and d: "round64 (u - of_int \<lfloor>v\<rfloor>) = Finite d"
    and db: "\<bar>d\<bar> \<le> 1 / 2" by blast
  have v': "round64 (1 / 2 + u) = Finite v" using v by (simp add: add.commute)
  have "- 1 \<le> 2 * d" "2 * d \<le> 1" using db by (simp_all add: abs_le_iff)
  from round64_between[OF round64_minus_one round64_one this] obtain y where
    y: "round64 (2 * d) = Finite y" and yb: "- 1 \<le> y" "y \<le> 1" by blast
  have "sawtooth_func x = Finite y"
    by (simp add: sawtooth_func_def assms(1) fsub_def v' d y)
  with yb show ?thesis by (simp add: abs_le_iff)
qed

lemma scaled_bound:
  assumes "round64 A = Finite A" "0 \<le> A" "\<bar>y\<bar> \<le> 1"
  shows "\<exists>s. fmul (Finite A) (Finite y) = Finite s \<and> \<bar>s\<bar> \<le> A"
proof -
  have "\<bar>A * y\<bar> \<le> A * 1" unfolding abs_mult using assms(2,3) by (intro mult_mono) simp_all
  then have "- A \<le> A * y" "A * y \<le> A" by (simp_all add: abs_le_iff)
  from round64_between[OF round64_minus_fixed[OF assms(1)] assms(1) this]
  show ?thesis by (auto simp: abs_le_iff)
qed

lemma square_sample:
  assumes "round64 A = Finite A"
  shows "fmul (Finite A) (Finite (of_int (square_func x))) = Finite A \<or>
         fmul (Finite A) (Finite (of_int (square_func x))) = Finite (- A)"
  using assms round64_minus_fixed[OF assms] by (simp add: square_func_def)

lemma generate_wave_elements:
  assumes "generate_wave self (wave_function_dict fsin k) fr = Inr buf"
  shows "\<exists>t. sample_times self fr = Inr t \<and> length buf = length t \<and>
    (k = SINE \<longrightarrow> buf = map (\<lambda>x. fmul (amplitude self) (fsin x)) (phases fr t)) \<and>
    (k = TRIANGLE \<longrightarrow>
       buf = map (\<lambda>x. fmul (amplitude self) (triangle_func x)) (phases fr t)) \<and>
    (k = SQUARE \<longrightarrow>
       buf = map (\<lambda>x. fmul (amplitude self) (Finite (of_int (square_func x)))) (phases fr t)) \<and>
    (k = SAWTOOTH \<longrightarrow>
       buf = map (\<lambda>x. fmul (amplitude self) (sawtooth_func x)) (phases fr t))"
proof -
  from assms obtain t w where t: "sample_times self fr = Inr t"
    and w: "wave_function_dict fsin k (phases fr t) = Inr w"
    and b: "buf = map (\<lambda>s. fmul (amplitude self) s) w"
    by (auto simp: generate_wave_def split: sum.splits)
  have l: "length w = length t"
    using w by (cases k) (auto simp: np_sin_def np_vectorize_def phases_def split: if_splits)
  have "length buf = length t" using b l by simp
  moreover have "buf = map (\<lambda>x. fmul (amplitude self) (fsin x)) (phases fr t)" if "k = SINE"
    using w b that by (auto simp: np_sin_def)
  moreover have "buf = map (\<lambda>x. fmul (amplitude self) (triangle_func x)) (phases fr t)"
    if "k = TRIANGLE"
    using w b that by (auto simp: np_vectorize_def split: if_splits)
  moreover have
    "buf = map (\<lambda>x. fmul (amplitude self) (Finite (of_int (square_func x)))) (phases fr t)"
    if "k = SQUARE"
    using w b that by (auto simp: np_vectorize_def split: if_splits)
  moreover have "buf = map (\<lambda>x. fmul (amplitude self) (sawtooth_func x)) (phases fr t)"
    if "k = SAWTOOTH"
    using w b that by (auto simp: np_vectorize_def split: if_splits)
  ultimately show ?thesis using t by blast
qed

text \<open>
  C3 (amplitude bound). Let the amplitude \<open>A\<close> be a non-negative float. In every buffer
  that the builder returns, a square sample is exactly \<open>A\<close> or \<open>- A\<close>; a triangle or
  sawtooth sample has magnitude at most \<open>A\<close> whenever the cycle count of its phase, the
  float \<^verbatim>\<open>x / (2 * np.pi)\<close>, is below \<open>2 ^ 52\<close> in magnitude; a sine sample has magnitude
  at most \<open>A\<close> whenever the sine routine returns a value of magnitude at most 1 for its
  phase. No tolerance is needed.
\<close>

theorem generate_wave_amplitude_bound:
  assumes "generate_wave self (wave_function_dict fsin k) fr = Inr buf"
    and "amplitude self = Finite A" "0 \<le> A" "round64 A = Finite A"
  shows "\<exists>t. sample_times self fr = Inr t \<and> length buf = length t \<and>
      (\<forall>i<length buf.
         (k = SQUARE \<longrightarrow> buf ! i = Finite A \<or> buf ! i = Finite (- A)) \<and>
         (k = TRIANGLE \<or> k = SAWTOOTH \<longrightarrow>
            (\<forall>u. fdiv (phases fr t ! i) two_pi = Finite u \<and> \<bar>u\<bar> < 2 ^ 52 \<longrightarrow>
                 (\<exists>s. buf ! i = Finite s \<and> \<bar>s\<bar> \<le> A))) \<and>
         (k = SINE \<longrightarrow>
            (\<forall>y. fsin (phases fr t ! i) = Finite y \<and> \<bar>y\<bar> \<le> 1 \<longrightarrow>
                 (\<exists>s. buf ! i = Finite s \<and> \<bar>s\<bar> \<le> A))))"
proof -
  from generate_wave_elements[OF assms(1)] obtain t where
    t: "sample_times self fr = Inr t" and l: "length buf = length t"
    and sine: "k = SINE \<Longrightarrow> buf = map (\<lambda>x. fmul (amplitude self) (fsin x)) (phases fr t)"
    and tri: "k = TRIANGLE \<Longrightarrow>
                buf = map (\<lambda>x. fmul (amplitude self) (triangle_func x)) (phases fr t)"
    and sq: "k = SQUARE \<Longrightarrow>
       buf = map (\<lambda>x. fmul (amplitude self) (Finite (of_int (square_func x)))) (phases fr t)"
    and saw: "k = SAWTOOTH \<Longrightarrow>
                buf = map (\<lambda>x. fmul (amplitude self) (sawtooth_func x)) (phases fr t)"
    by blast
  have lp: "length (phases fr t) = length t" by (simp add: phases_def)
  have "(k = SQUARE \<longrightarrow> buf ! i = Finite A \<or> buf ! i = Finite (- A)) \<and>
         (k = TRIANGLE \<or> k = SAWTOOTH \<longrightarrow>
            (\<forall>u. fdiv (phases fr t ! i) two_pi = Finite u \<and> \<bar>u\<bar> < 2 ^ 52 \<longrightarrow>
                 (\<exists>s. buf ! i = Finite s \<and> \<bar>s\<bar> \<le> A))) \<and>
         (k = SINE \<longrightarrow>
            (\<forall>y. fsin (phases fr t ! i) = Finite y \<and> \<bar>y\<bar> \<le> 1 \<longrightarrow>
                 (\<exists>s. buf ! i = Finite s \<and> \<bar>s\<bar> \<le> A)))"
    if i: "i < length buf" for i
  proof (intro conjI impI allI)
    have il: "i < length (phases fr t)" using i l lp by simp
    show "buf ! i = Finite A \<or> buf ! i = Finite (- A)" if "k = SQUARE"
      using sq[OF that] il square_sample[OF assms(4)] by (simp add: assms(2))
    show "\<exists>s. buf ! i = Finite s \<and> \<bar>s\<bar> \<le> A"
      if k: "k = TRIANGLE \<or> k = SAWTOOTH"
        and u: "fdiv (phases fr t ! i) two_pi = Finite u \<and> \<bar>u\<bar> < 2 ^ 52" for u
      using k
    proof
      assume kt: "k = TRIANGLE"
      from triangle_bound[of "phases fr t ! i" u] u obtain y where
        y: "triangle_func (phases fr t ! i) = Finite y" "\<bar>y\<bar> \<le> 1" by blast
      from scaled_bound[OF assms(4,3) y(2)] show ?thesis
        using tri[OF kt] il y(1) by (simp add: assms(2))
    next
      assume ks: "k = SAWTOOTH"
      from sawtooth_bound[of "phases fr t ! i" u] u obtain y where
        y: "sawtooth_func (phases fr t ! i) = Finite y" "\<bar>y\<bar> \<le> 1" by blast
      from scaled_bound[OF assms(4,3) y(2)] show ?thesis
        using saw[OF ks] il y(1) by (simp add: assms(2))
    qed
    show "\<exists>s. buf ! i = Finite s \<and> \<bar>s\<bar> \<le> A"
      if k: "k = SINE" and y: "fsin (phases fr t ! i) = Finite y \<and> \<bar>y\<bar> \<le> 1" for y
    proof -
      from y have "\<bar>y\<bar> \<le> 1" by simp
      from scaled_bound[OF assms(4,3) this] show ?thesis
        using sine[OF k] il y by (simp add: assms(2))
    qed
  qed
  with t l show ?thesis by blast
qed

lemma sample_times_two:
  assumes "f \<noteq> 0" "round64 f = Finite f" "round64 (of_int \<lceil>f\<rceil> / f) = Finite 1"
  shows "sample_times (WaveformGenerator fsin 2 1 A) (Finite f) = Inr [Finite 0, Finite (1 / 2)]"
proof -
  define g where "g = WaveformGenerator fsin 2 1 A"
  have 2: "round64 (of_int (duration g)) = Finite 1"
    by (simp add: g_def generator_fields round64_one)
  have 3: "round64 (1 * f) = Finite f" using assms(2) by simp
  have 5: "round64 (of_int (sample_rate g)) = Finite 2"
    by (simp add: g_def generator_fields round64_two)
  have 6: "round64 (2 * 1) = Finite 2" by (simp add: round64_two)
  have "num_samples g (Finite f) = Inr (py_trunc 2)"
    by (rule num_samples_eq(3)[OF assms(1) 2 3 assms(3) 5 6])
  then have n: "num_samples g (Finite f) = Inr 2" by (simp add: py_trunc_def)
  have d: "adjusted_duration g (Finite f) = Inr (Finite 1)"
    by (rule num_samples_eq(2)[OF assms(1) 2 3 assms(3) 5 6])
  show ?thesis unfolding g_def[symmetric]
    using sample_times_linspace[OF d n] by (simp only: linspace_one_two)
qed

lemma frequency_2_53_2: "round64 9007199254740994 = Finite 9007199254740994"
  using round64_fix[of 4503599627370497 1] by (simp add: pow2_def)

lemma phase_rate_2_53_2:
  "round64 (2 * pi64 * 9007199254740994) = Finite 56593902016227536"
  using round64_near[of 55 "2 * pi64 * 9007199254740994" 7074237752028442]
  by (simp add: pow2_def pi64_def)

lemma phase_2_53_2: "round64 (56593902016227536 * (1 / 2)) = Finite 28296951008113768"
  using round64_fix[of 7074237752028442 2] by (simp add: pow2_def)

lemma cycles_2_53_2: "round64 (28296951008113768 / (2 * pi64)) = Finite 4503599627370497"
  using round64_near[of 52 "28296951008113768 / (2 * pi64)" 4503599627370497]
  by (simp add: pow2_def pi64_def)

lemma cycles_half_2_53_2: "round64 (4503599627370497 + 1 / 2) = Finite 4503599627370498"
  using round64_tie[of 52 "4503599627370497 + 1 / 2" 4503599627370497]
  by (simp add: pow2_def)

lemma phases_2_53_2:
  "phases (Finite 9007199254740994) [Finite 0, Finite (1 / 2)]
   = [Finite 0, Finite 28296951008113768]"
  using phase_rate_2_53_2 phase_2_53_2
  by (simp add: phases_def two_pi_eq round64_zero)

lemma triangle_func_2_53_2: "triangle_func (Finite 28296951008113768) = Finite 3"
proof -
  have p: "2 * pi64 \<noteq> 0" by (simp add: pi64_def)
  have u: "fdiv (Finite 28296951008113768) two_pi = Finite 4503599627370497"
    using cycles_2_53_2 p by (simp add: two_pi_eq)
  have v: "fadd (Finite 4503599627370497) (Finite (1 / 2)) = Finite 4503599627370498"
    using cycles_half_2_53_2 by simp
  have d: "fsub (Finite 4503599627370497) (ffloor (Finite 4503599627370498)) = Finite (- 1)"
    using round64_minus_one by (simp add: fsub_def)
  have a: "fmul (Finite 2) (Finite (- 1)) = Finite (- 2)" using round64_int[of "- 2"] by simp
  have b: "fmul (Finite 2) (fabs (Finite (- 2))) = Finite 4" using round64_int[of 4] by simp
  have c: "fsub (Finite 4) (Finite 1) = Finite 3" using round64_int[of 3] by (simp add: fsub_def)
  show ?thesis unfolding triangle_func_def u v d a b c ..
qed

lemma sawtooth_func_2_53_2: "sawtooth_func (Finite 28296951008113768) = Finite (- 2)"
proof -
  have p: "2 * pi64 \<noteq> 0" by (simp add: pi64_def)
  have u: "fdiv (Finite 28296951008113768) two_pi = Finite 4503599627370497"
    using cycles_2_53_2 p by (simp add: two_pi_eq)
  have v: "fadd (Finite (1 / 2)) (Finite 4503599627370497) = Finite 4503599627370498"
    using cycles_half_2_53_2 by (simp add: add.commute)
  have d: "fsub (Finite 4503599627370497) (ffloor (Finite 4503599627370498)) = Finite (- 1)"
    using round64_minus_one by (simp add: fsub_def)
  have a: "fmul (Finite 2) (Finite (- 1)) = Finite (- 2)" using round64_int[of "- 2"] by simp
  show ?thesis unfolding sawtooth_func_def u v d a ..
qed

text \<open>
  Claim C3 fails as stated, by more than a tolerance. With sample rate 2, duration 1,
  amplitude 0.5 and the frequency \<open>2 ^ 53 + 2\<close> the second phase has the cycle count
  \<open>2 ^ 52 + 1\<close>; adding 0.5 to it rounds up to \<open>2 ^ 52 + 2\<close>, so the offset within the
  cycle is -1 instead of 0: the triangle buffer is \<open>[-0.5, 1.5]\<close> and the sawtooth
  buffer is \<open>[0, -1]\<close>.
\<close>

theorem large_phase_exceeds_amplitude:
  "\<forall>fsin. generate_wave (WaveformGenerator fsin 2 1 (Finite (1 / 2)))
            (wave_function_dict fsin TRIANGLE) (Finite 9007199254740994)
          = Inr [Finite (- (1 / 2)), Finite (3 / 2)] \<and>
          generate_wave (WaveformGenerator fsin 2 1 (Finite (1 / 2)))
            (wave_function_dict fsin SAWTOOTH) (Finite 9007199254740994)
          = Inr [Finite 0, Finite (- 1)]"
proof
  fix fsin
  have c: "\<lceil>9007199254740994 :: real\<rceil> = 9007199254740994" by simp
  have t: "sample_times (WaveformGenerator fsin 2 1 (Finite (1 / 2))) (Finite 9007199254740994)
           = Inr [Finite 0, Finite (1 / 2)]"
    by (rule sample_times_two) (simp_all add: frequency_2_53_2 round64_one)
  have 1: "round64 (- (1 / 2)) = Finite (- (1 / 2))" by (rule round64_minus_half_double)
  have 2: "round64 (3 / 2) = Finite (3 / 2)"
    using round64_fix[of 3 "- 1"] by (simp add: pow2_def)
  show "generate_wave (WaveformGenerator fsin 2 1 (Finite (1 / 2)))
            (wave_function_dict fsin TRIANGLE) (Finite 9007199254740994)
          = Inr [Finite (- (1 / 2)), Finite (3 / 2)] \<and>
          generate_wave (WaveformGenerator fsin 2 1 (Finite (1 / 2)))
            (wave_function_dict fsin SAWTOOTH) (Finite 9007199254740994)
          = Inr [Finite 0, Finite (- 1)]"
    using 1 2 round64_minus_one
    by (simp add: generate_wave_def t phases_2_53_2 np_vectorize_def generator_fields
        triangle_func_zero triangle_func_2_53_2 sawtooth_func_zero sawtooth_func_2_53_2
        round64_zero)
qed

lemma phases_one:
  "phases (Finite 1) [Finite 0, Finite (1 / 2)] = [Finite 0, Finite pi64]"
proof -
  have "fmul two_pi (Finite 1) = Finite (2 * pi64)"
    using two_pi_eq by (simp add: two_pi_def)
  then show ?thesis using pi64_double by (simp add: phases_def round64_zero)
qed

lemma cycles_pi: "fdiv (Finite pi64) two_pi = Finite (1 / 2)"
proof -
  have "pi64 / (2 * pi64) = 1 / 2" using pi64_pos by simp
  then show ?thesis using pi64_pos by (simp add: two_pi_eq round64_half)
qed

lemma sawtooth_func_pi: "sawtooth_func (Finite pi64) = Finite (- 1)"
  by (simp add: sawtooth_func_def cycles_pi round64_one fsub_def round64_minus_half_double
      round64_minus_one)

lemma sawtooth_wave_one:
  "generate_wave (WaveformGenerator fsin 2 1 (Finite (1 / 2)))
     (wave_function_dict fsin SAWTOOTH) (Finite 1) = Inr [Finite 0, Finite (- (1 / 2))]"
proof -
  have t: "sample_times (WaveformGenerator fsin 2 1 (Finite (1 / 2))) (Finite 1)
           = Inr [Finite 0, Finite (1 / 2)]"
    by (rule sample_times_two) (simp_all add: round64_one)
  show ?thesis
    by (simp add: generate_wave_def t phases_one np_vectorize_def generator_fields
        sawtooth_func_zero sawtooth_func_pi round64_zero round64_minus_half_double)
qed

theorem generate_wave_amplitude_bound_witness:
  "\<forall>fsin. generate_wave (WaveformGenerator fsin 2 1 (Finite (1 / 2)))
            (wave_function_dict fsin SAWTOOTH) (Finite 1) = Inr [Finite 0, Finite (- (1 / 2))] \<and>
          (\<exists>s. [Finite 0, Finite (- (1 / 2))] ! 1 = Finite s \<and> \<bar>s\<bar> \<le> 1 / 2)"
proof
  fix fsin
  define g where "g = WaveformGenerator fsin 2 1 (Finite (1 / 2))"
  have w: "generate_wave g (wave_function_dict fsin SAWTOOTH) (Finite 1)
           = Inr [Finite 0, Finite (- (1 / 2))]"
    unfolding g_def by (rule sawtooth_wave_one)
  have t: "sample_times g (Finite 1) = Inr [Finite 0, Finite (1 / 2)]"
    unfolding g_def by (rule sample_times_two) (simp_all add: round64_one)
  have a: "amplitude g = Finite (1 / 2)" by (simp add: g_def generator_fields)
  from generate_wave_amplitude_bound[OF w a _ round64_half]
  obtain t' where t': "sample_times g (Finite 1) = Inr t'"
    and b: "\<forall>i<length [Finite 0, Finite (- (1 / 2))].
         (SAWTOOTH = TRIANGLE \<or> SAWTOOTH = SAWTOOTH \<longrightarrow>
            (\<forall>u. fdiv (phases (Finite 1) t' ! i) two_pi = Finite u \<and> \<bar>u\<bar> < 2 ^ 52 \<longrightarrow>
                 (\<exists>s. [Finite 0, Finite (- (1 / 2))] ! i = Finite s \<and> \<bar>s\<bar> \<le> 1 / 2)))"
    by auto
  from t t' have tt: "t' = [Finite 0, Finite (1 / 2)]" by simp
  have "fdiv (phases (Finite 1) t' ! 1) two_pi = Finite (1 / 2) \<and> \<bar>1 / 2 :: real\<bar> < 2 ^ 52"
    unfolding tt phases_one by (simp add: cycles_pi)
  with b have "\<exists>s. [Finite 0, Finite (- (1 / 2))] ! 1 = Finite s \<and> \<bar>s\<bar> \<le> 1 / 2"
    by (metis One_nat_def length_Cons lessI list.size(3))
  with w show "generate_wave (WaveformGenerator fsin 2 1 (Finite (1 / 2)))
            (wave_function_dict fsin SAWTOOTH) (Finite 1) = Inr [Finite 0, Finite (- (1 / 2))] \<and>
          (\<exists>s. [Finite 0, Finite (- (1 / 2))] ! 1 = Finite s \<and> \<bar>s\<bar> \<le> 1 / 2)"
    unfolding g_def by blast
qed

section \<open>Properties of loading and of the driver\<close>

lemma py_float_error: "py_float s = Inl e \<Longrightarrow> e = ValueError"
  by (auto simp: py_float_def split: prod.splits if_splits option.splits)

lemma parse_lines_error: "parse_lines ls = Inl e \<Longrightarrow> e = ValueError"
  by (induction ls arbitrary: e) (auto split: sum.splits dest: py_float_error)

lemma parse_lines_bad_line:
  assumes "line \<in> set ls" "py_float (strip line) = Inl e"
  shows "parse_lines ls = Inl ValueError"
proof -
  have "\<exists>e'. parse_lines ls = Inl e'"
    using assms by (induction ls) (auto split: sum.splits)
  then show ?thesis using parse_lines_error by blast
qed

lemma parse_lines_all:
  "map (\<lambda>line. py_float (strip line)) ls = map Inr vs \<Longrightarrow> parse_lines ls = Inr vs"
  by (induction ls arbitrary: vs) auto

lemma strip_blank:
  assumes "\<forall>c\<in>set s. is_space c"
  shows "strip s = []"
proof -
  have d: "dropWhile is_space s = []" using assms by simp
  show ?thesis unfolding strip_def d by simp
qed

lemma strip_empty: "strip [] = []"
  by (simp add: strip_def)

lemma py_float_empty: "py_float [] = Inl ValueError"
  by (simp add: py_float_def strip_def sign_def number_def digitpart_def)

lemma py_float_eval:
  assumes "sign (strip s) = (neg, r)"
    and "map lower r \<noteq> ''inf''" "map lower r \<noteq> ''infinity''" "map lower r \<noteq> ''nan''"
    and "number r = Some (ip, fp, r')" "exponent r' = Some e"
  shows "py_float s =
         Inr (round64 ((if neg then - 1 else 1) *
                scale10 (digits_value (ip @ fp)) (e - int (length fp))))"
  using assms by (simp add: py_float_def)

lemma py_float_reject:
  assumes "sign (strip s) = (neg, r)"
    and "map lower r \<noteq> ''inf''" "map lower r \<noteq> ''infinity''" "map lower r \<noteq> ''nan''"
    and "number r = None"
  shows "py_float s = Inl ValueError"
  using assms by (simp add: py_float_def)

lemma py_float_blank: "\<forall>c\<in>set s. is_space c \<Longrightarrow> py_float (strip s) = Inl ValueError"
  by (simp add: strip_blank py_float_empty)

lemma split_newline_nonempty: "split_newline s \<noteq> []"
  by (induction s) auto

lemma split_newline_trailing: "split_newline (t @ [newline]) = split_newline t @ [[]]"
  by (induction t) (simp_all add: split_newline_nonempty)

lemma split_newline_trailing_mem: "[] \<in> set (split_newline (t @ [newline]))"
  by (simp add: split_newline_trailing)

text \<open>
  Claim C8. When a line of the frequency list is not accepted by \<^verbatim>\<open>float\<close>,
  \<^verbatim>\<open>load_frequencies\<close> raises (the exception is Python's ValueError) and \<^verbatim>\<open>main\<close>
  ends with that exception in the world it started in: nothing has been printed, no
  folder has been created, no buffer has been built and no file has been written,
  whatever the command line arguments are.
\<close>

theorem main_malformed_list:
  assumes "text_files w ''colundi_hertz.txt'' = Some content"
    and "line \<in> set (split_newline content)"
    and "py_float (strip line) = Inl e"
  shows "load_frequencies ''colundi_hertz.txt'' w = Inl ValueError \<and>
         main fmt fsin a w = (w, Some ValueError)"
proof -
  have "parse_lines (split_newline content) = Inl ValueError"
    using assms(2,3) by (rule parse_lines_bad_line)
  then have "load_frequencies ''colundi_hertz.txt'' w = Inl ValueError"
    by (simp add: load_frequencies_def read_text_def assms(1))
  then show ?thesis by (simp add: main_def)
qed

theorem main_malformed_list_witness:
  "\<forall>fsin. main float_str fsin
     \<lparr>arg_sample_rate = 96000, arg_duration = 1, arg_amplitude = Finite (1 / 2),
      arg_waveform = SINE\<rparr>
     \<lparr>text_files = [''colundi_hertz.txt'' \<mapsto> ''440'' @ [newline] @ ''abc''],
      dirs = {}, wav_files = Map.empty, stdout = []\<rparr>
   = (\<lparr>text_files = [''colundi_hertz.txt'' \<mapsto> ''440'' @ [newline] @ ''abc''],
       dirs = {}, wav_files = Map.empty, stdout = []\<rparr>, Some ValueError)"
proof
  fix fsin
  have l: "''abc'' \<in> set (split_newline (''440'' @ [newline] @ ''abc''))"
    by (simp add: newline_def)
  have p: "py_float (strip ''abc'') = Inl ValueError"
    by (rule py_float_reject[where r = "''abc''" and neg = False]) code_simp+
  show "main float_str fsin
     \<lparr>arg_sample_rate = 96000, arg_duration = 1, arg_amplitude = Finite (1 / 2),
      arg_waveform = SINE\<rparr>
     \<lparr>text_files = [''colundi_hertz.txt'' \<mapsto> ''440'' @ [newline] @ ''abc''],
      dirs = {}, wav_files = Map.empty, stdout = []\<rparr>
   = (\<lparr>text_files = [''colundi_hertz.txt'' \<mapsto> ''440'' @ [newline] @ ''abc''],
       dirs = {}, wav_files = Map.empty, stdout = []\<rparr>, Some ValueError)"
    using main_malformed_list
      [of "\<lparr>text_files = [''colundi_hertz.txt'' \<mapsto> ''440'' @ [newline] @ ''abc''],
            dirs = {}, wav_files = Map.empty, stdout = []\<rparr>"
          "''440'' @ [newline] @ ''abc''" "''abc''" ValueError float_str fsin
          "\<lparr>arg_sample_rate = 96000, arg_duration = 1, arg_amplitude = Finite (1 / 2),
            arg_waveform = SINE\<rparr>",
       OF _ l p]
    by simp
qed

text \<open>
  Claim C9. When every line of the file is accepted by \<^verbatim>\<open>float\<close>,
  \<^verbatim>\<open>load_frequencies\<close> returns exactly the parsed values in the order of the lines,
  whatever the values are, and \<^verbatim>\<open>main\<close> hands the whole list to
  \<^verbatim>\<open>generate_files\<close> as it is.
\<close>

theorem load_frequencies_no_validation:
  assumes "text_files w file_path = Some content"
    and "map (\<lambda>line. py_float (strip line)) (split_newline content) = map Inr values"
  shows "load_frequencies file_path w = Inr values \<and>
         (file_path = ''colundi_hertz.txt'' \<longrightarrow>
            main fmt fsin a w =
              (case generate_files fmt
                      (WaveformGenerator fsin (arg_sample_rate a) (arg_duration a)
                         (arg_amplitude a))
                      values
                      (''colundi_waveforms_'' @ map lower (waveform_name (arg_waveform a)))
                      (arg_waveform a)
                      (print (''Generating '' @ waveform_str (arg_waveform a)
                                @ '' waveforms for '' @ nat_str (length values)
                                @ '' frequencies'') w) of
                 (w2, Some e) \<Rightarrow> (w2, Some e)
               | (w2, None) \<Rightarrow>
                   (print (''Waveforms generated, outputs are in '' @
                           (''colundi_waveforms_'' @ map lower (waveform_name (arg_waveform a))))
                      w2, None)))"
proof -
  have "parse_lines (split_newline content) = Inr values"
    using assms(2) by (rule parse_lines_all)
  then have l: "load_frequencies file_path w = Inr values"
    by (simp add: load_frequencies_def read_text_def assms(1))
  show ?thesis
  proof (intro conjI impI)
    show "load_frequencies file_path w = Inr values" by (rule l)
  next
    assume "file_path = ''colundi_hertz.txt''"
    with l have l': "load_frequencies ''colundi_hertz.txt'' w = Inr values" by simp
    show "main fmt fsin a w =
              (case generate_files fmt
                      (WaveformGenerator fsin (arg_sample_rate a) (arg_duration a)
                         (arg_amplitude a))
                      values
                      (''colundi_waveforms_'' @ map lower (waveform_name (arg_waveform a)))
                      (arg_waveform a)
                      (print (''Generating '' @ waveform_str (arg_waveform a)
                                @ '' waveforms for '' @ nat_str (length values)
                                @ '' frequencies'') w) of
                 (w2, Some e) \<Rightarrow> (w2, Some e)
               | (w2, None) \<Rightarrow>
                   (print (''Waveforms generated, outputs are in '' @
                           (''colundi_waveforms_'' @ map lower (waveform_name (arg_waveform a))))
                      w2, None))"
      unfolding main_def Let_def l' by (simp only: sum.case)
  qed
qed

theorem load_frequencies_no_validation_witness:
  "load_frequencies ''colundi_hertz.txt''
     \<lparr>text_files = [''colundi_hertz.txt'' \<mapsto> ''0'' @ [newline] @ ''-3''],
      dirs = {}, wav_files = Map.empty, stdout = []\<rparr>
   = Inr [Finite 0, Finite (- 3)]"
proof -
  have s: "split_newline (''0'' @ [newline] @ ''-3'') = [''0'', ''-3'']" by code_simp
  have "py_float (strip ''0'') =
      Inr (round64 ((if False then - 1 else 1) *
             scale10 (digits_value ([0] @ [])) (0 - int (length ([] :: nat list)))))"
    by (rule py_float_eval[where r = "''0''" and r' = "[]"]) code_simp+
  then have a: "py_float (strip ''0'') = Inr (round64 0)"
    by (simp add: scale10_def digits_value_def)
  have "py_float (strip ''-3'') =
      Inr (round64 ((if True then - 1 else 1) *
             scale10 (digits_value ([3] @ [])) (0 - int (length ([] :: nat list)))))"
    by (rule py_float_eval[where r = "''3''" and r' = "[]"]) code_simp+
  then have b: "py_float (strip ''-3'') = Inr (round64 (- 3))"
    by (simp add: scale10_def digits_value_def)
  have p: "map (\<lambda>line. py_float (strip line)) (split_newline (''0'' @ [newline] @ ''-3''))
           = map Inr [Finite 0, Finite (- 3)]"
    unfolding s using a b round64_int[of "- 3"] by (simp add: round64_zero)
  show ?thesis
    using load_frequencies_no_validation
      [of "\<lparr>text_files = [''colundi_hertz.txt'' \<mapsto> ''0'' @ [newline] @ ''-3''],
            dirs = {}, wav_files = Map.empty, stdout = []\<rparr>"
          "''colundi_hertz.txt''" "''0'' @ [newline] @ ''-3''" "[Finite 0, Finite (- 3)]",
       OF _ p]
    by simp
qed

text \<open>
  Claim C10. A file with a line that is empty or consists of whitespace only, and so
  every file whose text ends with a line feed, makes \<^verbatim>\<open>load_frequencies\<close> raise
  ValueError.
\<close>

theorem load_frequencies_blank_line:
  assumes "text_files w file_path = Some content"
    and "(\<exists>line\<in>set (split_newline content). \<forall>c\<in>set line. is_space c)
         \<or> (\<exists>t. content = t @ [newline])"
  shows "load_frequencies file_path w = Inl ValueError"
proof -
  from assms(2) obtain line where
    line: "line \<in> set (split_newline content)" "\<forall>c\<in>set line. is_space c"
  proof
    assume "\<exists>line\<in>set (split_newline content). \<forall>c\<in>set line. is_space c"
    then show ?thesis using that by blast
  next
    assume "\<exists>t. content = t @ [newline]"
    then obtain t where "content = t @ [newline]" ..
    then have "[] \<in> set (split_newline content)" by (simp add: split_newline_trailing_mem)
    then show ?thesis using that[of "[]"] by simp
  qed
  have "py_float (strip line) = Inl ValueError" using line(2) by (rule py_float_blank)
  with line(1) have "parse_lines (split_newline content) = Inl ValueError"
    by (rule parse_lines_bad_line)
  then show ?thesis by (simp add: load_frequencies_def read_text_def assms(1))
qed

theorem load_frequencies_blank_line_witness:
  "load_frequencies ''colundi_hertz.txt''
     \<lparr>text_files = [''colundi_hertz.txt'' \<mapsto> ''440'' @ [newline]],
      dirs = {}, wav_files = Map.empty, stdout = []\<rparr>
   = Inl ValueError"
  using load_frequencies_blank_line
      [of "\<lparr>text_files = [''colundi_hertz.txt'' \<mapsto> ''440'' @ [newline]],
            dirs = {}, wav_files = Map.empty, stdout = []\<rparr>"
          "''colundi_hertz.txt''" "''440'' @ [newline]"]
  by simp

section \<open>Properties of the output files\<close>

lemma write_waves_dom:
  assumes "write_waves fmt self wfun out frs w = (w', None)"
  shows "dom (wav_files w') =
         dom (wav_files w) \<union> (\<lambda>fr. out @ ''/'' @ ''colundi_'' @ fmt fr @ ''.wav'') ` set frs"
  using assms
proof (induction frs arbitrary: w)
  case Nil
  then show ?case by simp
next
  case (Cons fr frs)
  from Cons.prems obtain buf where
    buf: "generate_wave self wfun fr = Inr buf"
    and rest: "write_waves fmt self wfun out frs
            (sf_write (out @ ''/'' @ ''colundi_'' @ fmt fr @ ''.wav'') buf (sample_rate self) w)
          = (w', None)"
    by (auto split: sum.splits)
  from Cons.IH[OF rest] show ?case by (auto simp: sf_write_def)
qed

lemma generate_files_dom:
  assumes "generate_files fmt self frs out k w = (w', None)"
  shows "dom (wav_files w') =
         dom (wav_files w) \<union> (\<lambda>fr. out @ ''/'' @ ''colundi_'' @ fmt fr @ ''.wav'') ` set frs"
proof -
  from assms obtain w1 where m: "mkdir out w = Inr w1"
    and ww: "write_waves fmt self (wave_functions self k) out frs w1 = (w', None)"
    by (auto simp: generate_files_def split: sum.splits)
  from m have "wav_files w1 = wav_files w" by (auto simp: mkdir_def split: if_splits)
  with write_waves_dom[OF ww] show ?thesis by simp
qed

lemma digit_char_table:
  "\<forall>d\<in>set [0..<10]. is_digit (digit_char d) \<and> digit_val (digit_char d) = d \<and>
      \<not> is_space (digit_char d) \<and> lower (digit_char d) = digit_char d \<and>
      digit_char d \<notin> set ''+-._inIN''"
  by code_simp

lemma digit_char_props:
  assumes "d < 10"
  shows "is_digit (digit_char d)" "digit_val (digit_char d) = d" "\<not> is_space (digit_char d)"
    "lower (digit_char d) = digit_char d" "digit_char d \<notin> set ''+-._inIN''"
proof -
  have "d \<in> set [0..<10]" using assms by simp
  with digit_char_table show "is_digit (digit_char d)" "digit_val (digit_char d) = d"
    "\<not> is_space (digit_char d)" "lower (digit_char d) = digit_char d"
    "digit_char d \<notin> set ''+-._inIN''"
    by blast+
qed

text \<open>A numeral: a non-empty string of digit characters.\<close>

lemma nat_str_digits: "nat_str n \<noteq> [] \<and> set (nat_str n) \<subseteq> digit_char ` {..<10}"
proof (induction n rule: nat_str.induct)
  case (1 n)
  show ?case
  proof (cases "n < 10")
    case True
    then show ?thesis by (subst nat_str.simps, subst (2) nat_str.simps) auto
  next
    case False
    have "digit_char (n mod 10) \<in> digit_char ` {..<10}" by (rule imageI) simp
    with False 1 show ?thesis
      by (subst nat_str.simps, subst (2) nat_str.simps) auto
  qed
qed

lemma digits_value_snoc: "digits_value (ds @ [d]) = 10 * digits_value ds + d"
  by (simp add: digits_value_def)

lemma nat_str_value: "digits_value (map digit_val (nat_str n)) = n"
proof (induction n rule: nat_str.induct)
  case (1 n)
  show ?case
  proof (cases "n < 10")
    case True
    then show ?thesis
      by (subst nat_str.simps) (simp add: digits_value_def digit_char_props(2))
  next
    case False
    have "n mod 10 < 10" by simp
    then have "digit_val (digit_char (n mod 10)) = n mod 10" by (rule digit_char_props(2))
    with False 1 show ?thesis
      by (subst nat_str.simps) (simp add: digits_value_snoc)
  qed
qed

lemma digit_string_props:
  assumes "set s \<subseteq> digit_char ` {..<10}" "c \<in> set s"
  shows "is_digit c" "\<not> is_space c" "lower c = c" "c \<notin> set ''+-._inIN''"
proof -
  from assms obtain d where "d < 10" "c = digit_char d" by auto
  then show "is_digit c" "\<not> is_space c" "lower c = c" "c \<notin> set ''+-._inIN''"
    using digit_char_props[of d] by simp_all
qed

lemma digitpart_rest_digits:
  assumes "set s \<subseteq> digit_char ` {..<10}"
    and "r = [] \<or> (\<not> is_digit (hd r) \<and> hd r \<noteq> CHR ''_'')"
  shows "digitpart_rest (s @ r) = (map digit_val s, r)"
  using assms
proof (induction s)
  case Nil
  then show ?case
    by (cases r rule: digitpart_rest.cases) auto
next
  case (Cons a s)
  have a: "is_digit a" by (rule digit_string_props(1)[OF Cons.prems(1)]) simp
  have ih: "digitpart_rest (s @ r) = (map digit_val s, r)"
    using Cons by simp
  show ?case
  proof (cases "s @ r")
    case Nil
    then show ?thesis using a by simp
  next
    case (Cons d cs)
    then have "digitpart_rest ((a # s) @ r) =
        (case digitpart_rest (s @ r) of (ds, r') \<Rightarrow> (digit_val a # ds, r'))"
      using a by simp
    then show ?thesis by (simp add: ih)
  qed
qed

lemma digitpart_digits:
  assumes "s \<noteq> []" "set s \<subseteq> digit_char ` {..<10}"
    and "r = [] \<or> (\<not> is_digit (hd r) \<and> hd r \<noteq> CHR ''_'')"
  shows "digitpart (s @ r) = Some (map digit_val s, r)"
proof -
  from assms(1) obtain a s' where s: "s = a # s'" by (cases s) auto
  have a: "is_digit a" by (rule digit_string_props(1)[OF assms(2)]) (simp add: s)
  have "set s' \<subseteq> digit_char ` {..<10}" using assms(2) s by simp
  from digitpart_rest_digits[OF this assms(3)] a show ?thesis
    by (simp add: digitpart_def s)
qed

lemma number_digits:
  assumes "s \<noteq> []" "set s \<subseteq> digit_char ` {..<10}"
  shows "number s = Some (map digit_val s, [], [])"
    and "number (s @ ''.0'') = Some (map digit_val s, [0], [])"
proof -
  have "digitpart (s @ []) = Some (map digit_val s, [])"
    by (rule digitpart_digits[OF assms]) simp
  then show "number s = Some (map digit_val s, [], [])"
    by (simp add: number_def)
  have z: "digitpart ''0'' = Some ([0], [])" by code_simp
  have "digitpart (s @ ''.0'') = Some (map digit_val s, ''.0'')"
    by (rule digitpart_digits[OF assms]) (simp add: is_digit_def)
  then show "number (s @ ''.0'') = Some (map digit_val s, [0], [])"
    by (simp add: number_def z)
qed

lemma strip_id:
  assumes "s \<noteq> []" "\<not> is_space (hd s)" "\<not> is_space (last s)"
  shows "strip s = s"
proof -
  from assms(1,2) have "dropWhile is_space s = s" by (cases s) auto
  moreover from assms(1,3) have "dropWhile is_space (rev s) = rev s"
    by (cases "rev s") (auto simp: hd_rev)
  ultimately show ?thesis by (simp add: strip_def)
qed

lemma py_float_unsigned:
  assumes "strip s = s" "s \<noteq> []" "hd s \<notin> set ''+-._inIN''" "lower (hd s) = hd s"
    "number s = Some (ip, fp, [])"
  shows "py_float s = Inr (round64 (scale10 (digits_value (ip @ fp)) (- int (length fp))))"
proof -
  from assms(2) obtain c cs where s: "s = c # cs" by (cases s) auto
  with assms(3) have c: "c \<noteq> CHR ''-''" "c \<noteq> CHR ''+''" "c \<noteq> CHR ''i''" "c \<noteq> CHR ''n''"
    by auto
  then have sg: "sign s = (False, s)" by (simp add: sign_def s)
  have l: "map lower s = c # map lower cs" using assms(4) by (simp add: s)
  have "map lower s \<noteq> ''inf''" "map lower s \<noteq> ''infinity''" "map lower s \<noteq> ''nan''"
    using c unfolding l by simp_all
  then show ?thesis
    by (simp add: py_float_def assms(1,5) sg exponent_def)
qed

lemma py_float_nat_str_round:
  "py_float (nat_str n) = Inr (round64 (of_nat n))"
  "py_float (nat_str n @ ''.0'') = Inr (round64 (of_nat n))"
proof -
  let ?s = "nat_str n"
  have ne: "?s \<noteq> []" and ds: "set ?s \<subseteq> digit_char ` {..<10}"
    using nat_str_digits[of n] by simp_all
  have h: "hd ?s \<in> set ?s" and la: "last ?s \<in> set ?s" using ne by simp_all
  note hp = digit_string_props[OF ds h]
  note lp = digit_string_props[OF ds la]
  have st: "strip ?s = ?s" by (rule strip_id[OF ne hp(2) lp(2)])
  have "py_float ?s =
      Inr (round64 (scale10 (digits_value (map digit_val ?s @ [])) (- int (length ([]::nat list)))))"
    by (rule py_float_unsigned[OF st ne hp(4) hp(3) number_digits(1)[OF ne ds]])
  then show "py_float ?s = Inr (round64 (of_nat n))"
    by (simp add: nat_str_value scale10_def)
  let ?t = "?s @ ''.0''"
  have hd_t: "hd ?t = hd ?s" using ne by simp
  have "\<not> is_space (hd ?t)" unfolding hd_t by (rule hp(2))
  moreover have "\<not> is_space (last ?t)" by (simp add: is_space_def)
  ultimately have st': "strip ?t = ?t" by (intro strip_id) simp_all
  have "py_float ?t =
      Inr (round64 (scale10 (digits_value (map digit_val ?s @ [0])) (- int (length [0::nat]))))"
  proof (rule py_float_unsigned[OF st' _ _ _ number_digits(2)[OF ne ds]])
    show "?t \<noteq> []" by simp
    show "hd ?t \<notin> set ''+-._inIN''" unfolding hd_t by (rule hp(4))
    show "lower (hd ?t) = hd ?t" unfolding hd_t by (rule hp(3))
  qed
  then show "py_float ?t = Inr (round64 (of_nat n))"
    by (simp add: digits_value_snoc nat_str_value scale10_def)
qed

lemma round64_of_nat:
  assumes "n < 2 ^ 53"
  shows "round64 (of_nat n) = Finite (of_nat n)"
proof -
  have "int n < 2 ^ 53" using assms by (simp only: of_nat_less_numeral_power_cancel_iff)
  then have "\<bar>int n\<bar> \<le> 2 ^ 53" by simp
  from round64_int[OF this] show ?thesis by simp
qed

lemma py_float_nat_str:
  assumes "n < 2 ^ 53"
  shows "py_float (nat_str n) = Inr (Finite (of_nat n))"
  by (simp add: py_float_nat_str_round(1) round64_of_nat[OF assms])

lemma strip_nat_str: "strip (nat_str n) = nat_str n"
proof -
  have ne: "nat_str n \<noteq> []" and ds: "set (nat_str n) \<subseteq> digit_char ` {..<10}"
    using nat_str_digits[of n] by simp_all
  have "hd (nat_str n) \<in> set (nat_str n)" "last (nat_str n) \<in> set (nat_str n)"
    using ne by simp_all
  then have "\<not> is_space (hd (nat_str n))" "\<not> is_space (last (nat_str n))"
    using digit_string_props(2)[OF ds] by blast+
  with ne show ?thesis by (rule strip_id)
qed

lemma float_str_nat: "float_str (Finite (of_nat n)) = nat_str n @ ''.0''"
  by (simp add: float_str_def)

lemma linspace_one_one: "linspace (Finite 1) 1 = Inr [Finite 0]"
  by (simp add: linspace_def round64_one round64_zero)

lemma square_wave_440:
  "generate_wave (WaveformGenerator fsin 1 1 (Finite (1 / 2)))
     (wave_function_dict fsin SQUARE) (Finite 440) = Inr [Finite (1 / 2)]"
proof -
  define g where "g = WaveformGenerator fsin 1 1 (Finite (1 / 2))"
  have g: "sample_rate g = 1" "duration g = 1" "amplitude g = Finite (1 / 2)"
    by (simp_all add: g_def generator_fields)
  have r440: "round64 440 = Finite 440" using round64_int[of 440] by simp
  have 1: "(440 :: real) \<noteq> 0" by simp
  have 2: "round64 (of_int (duration g)) = Finite 1" by (simp add: g round64_one)
  have 3: "round64 (1 * 440) = Finite 440" using r440 by simp
  have 4: "round64 (of_int \<lceil>440 :: real\<rceil> / 440) = Finite 1" by (simp add: round64_one)
  have 5: "round64 (of_int (sample_rate g)) = Finite 1" by (simp add: g round64_one)
  have 6: "round64 (1 * 1) = Finite 1" by (simp add: round64_one)
  have n: "num_samples g (Finite 440) = Inr 1"
    using num_samples_eq(3)[OF 1 2 3 4 5 6] by (simp add: py_trunc_def)
  have d: "adjusted_duration g (Finite 440) = Inr (Finite 1)"
    by (rule num_samples_eq(2)[OF 1 2 3 4 5 6])
  have t: "sample_times g (Finite 440) = Inr [Finite 0]"
    using sample_times_linspace[OF d n] by (simp add: linspace_one_one)
  have "(0 :: real) \<le> 2 * pi64 * 440" "2 * pi64 * 440 \<le> (4096 :: real)"
    by (simp_all add: pi64_def)
  from round64_between[OF round64_zero _ this] round64_int[of 4096]
  obtain c where c: "round64 (2 * pi64 * 440) = Finite c" by auto
  have "fmul two_pi (Finite 440) = Finite c" using c by (simp only: two_pi_eq fmul.simps)
  then have "fmul (fmul two_pi (Finite 440)) (Finite 0) = Finite 0" by (simp add: round64_zero)
  then have p: "phases (Finite 440) [Finite 0] = [Finite 0]"
    by (simp only: phases_def list.map)
  have "square_func (Finite 0) = 1" by (rule square_func_zero)
  then show ?thesis unfolding g_def[symmetric]
    by (simp add: generate_wave_def t p np_vectorize_def g round64_half)
qed

lemma load_440:
  "load_frequencies ''colundi_hertz.txt''
     \<lparr>text_files = [''colundi_hertz.txt'' \<mapsto> ''440''], dirs = {}, wav_files = Map.empty,
      stdout = []\<rparr> = Inr [Finite 440]"
proof -
  have s: "split_newline ''440'' = [nat_str 440]" by code_simp
  have "py_float (strip (nat_str 440)) = Inr (Finite (of_nat 440))"
    unfolding strip_nat_str by (rule py_float_nat_str) simp
  then have pl: "parse_lines [nat_str 440] = Inr [Finite 440]" by simp
  have rt: "read_text ''colundi_hertz.txt''
     \<lparr>text_files = [''colundi_hertz.txt'' \<mapsto> ''440''], dirs = {}, wav_files = Map.empty,
      stdout = []\<rparr> = Inr ''440''"
    by (simp add: read_text_def)
  show ?thesis by (simp only: load_frequencies_def rt sum.case s pl)
qed

lemma main_440:
  "main float_str fsin
     \<lparr>arg_sample_rate = 1, arg_duration = 1, arg_amplitude = Finite (1 / 2),
      arg_waveform = SQUARE\<rparr>
     \<lparr>text_files = [''colundi_hertz.txt'' \<mapsto> ''440''], dirs = {}, wav_files = Map.empty,
      stdout = []\<rparr>
   = (\<lparr>text_files = [''colundi_hertz.txt'' \<mapsto> ''440''],
       dirs = {''colundi_waveforms_square''},
       wav_files = [''colundi_waveforms_square/colundi_440.0.wav'' \<mapsto> ([Finite (1 / 2)], 1)],
       stdout = [''Generating WaveFormType.SQUARE waveforms for 1 frequencies'',
                 ''Waveforms generated, outputs are in colundi_waveforms_square'']\<rparr>, None)"
proof -
  have f: "float_str (Finite 440) = ''440.0''" by code_simp
  have n: "nat_str (Suc 0) = ''1''" by code_simp
  show ?thesis
    by (simp add: main_def Let_def load_440 generate_files_def mkdir_def square_wave_440
        sf_write_def print_def waveform_str_def f n lower_def generator_fields
        del: wave_function_dict.simps)
qed

lemma load_numerals:
  assumes "text_files v file_path = Some content"
    and "split_newline content = map nat_str ns"
    and "\<forall>n\<in>set ns. n < 2 ^ 53"
  shows "load_frequencies file_path v = Inr (map (\<lambda>n. Finite (of_nat n)) ns)"
proof -
  have "map (\<lambda>line. py_float (strip line)) (split_newline content)
        = map Inr (map (\<lambda>n. Finite (of_nat n)) ns)"
    using assms(3) by (simp add: assms(2) strip_nat_str py_float_nat_str)
  then have "parse_lines (split_newline content) = Inr (map (\<lambda>n. Finite (of_nat n)) ns)"
    by (rule parse_lines_all)
  then show ?thesis by (simp add: load_frequencies_def read_text_def assms(1))
qed

lemma main_numerals_dom:
  assumes "text_files v ''colundi_hertz.txt'' = Some content"
    and "split_newline content = map nat_str ns"
    and "\<forall>n\<in>set ns. n < 2 ^ 53"
    and "main float_str fsin a v = (v', None)"
  shows "dom (wav_files v') =
         dom (wav_files v) \<union>
         (\<lambda>n. ''colundi_waveforms_'' @ map lower (waveform_name (arg_waveform a)) @ ''/'' @
               ''colundi_'' @ nat_str n @ ''.0'' @ ''.wav'') ` set ns"
proof -
  define folder where "folder = ''colundi_waveforms_'' @ map lower (waveform_name (arg_waveform a))"
  define gen where "gen = WaveformGenerator fsin (arg_sample_rate a) (arg_duration a)
                            (arg_amplitude a)"
  define fs where "fs = map (\<lambda>n. Finite (of_nat n)) ns"
  define w1 where "w1 = print (''Generating '' @ waveform_str (arg_waveform a) @ '' waveforms for ''
                            @ nat_str (length fs) @ '' frequencies'') v"
  have l: "load_frequencies ''colundi_hertz.txt'' v = Inr fs"
    unfolding fs_def by (rule load_numerals[OF assms(1,2,3)])
  have m: "main float_str fsin a v =
      (case generate_files float_str gen fs folder (arg_waveform a) w1 of
         (w2, Some e) \<Rightarrow> (w2, Some e)
       | (w2, None) \<Rightarrow> (print (''Waveforms generated, outputs are in '' @ folder) w2, None))"
    unfolding main_def Let_def l folder_def gen_def w1_def by (simp only: sum.case)
  from assms(4) obtain w2 where g: "generate_files float_str gen fs folder (arg_waveform a) w1 = (w2, None)"
    and v': "v' = print (''Waveforms generated, outputs are in '' @ folder) w2"
    unfolding m by (auto split: prod.splits option.splits)
  have "dom (wav_files w2) = dom (wav_files w1) \<union>
          (\<lambda>fr. folder @ ''/'' @ ''colundi_'' @ float_str fr @ ''.wav'') ` set fs"
    by (rule generate_files_dom[OF g])
  moreover have "wav_files v' = wav_files w2" by (simp add: v' print_def)
  moreover have "wav_files w1 = wav_files v" by (simp add: w1_def print_def)
  moreover have "(\<lambda>fr. folder @ ''/'' @ ''colundi_'' @ float_str fr @ ''.wav'') ` set fs
      = (\<lambda>n. folder @ ''/'' @ ''colundi_'' @ nat_str n @ ''.0'' @ ''.wav'') ` set ns"
    unfolding fs_def by (simp add: image_image float_str_nat)
  ultimately show ?thesis unfolding folder_def by simp
qed

text \<open>
  Claim C7, as the code has it. When \<^verbatim>\<open>generate_files\<close> succeeds, the audio files it
  has written are exactly the files \<^verbatim>\<open><output_folder>/colundi_<s>.wav\<close>, one for
  each frequency of the list, where \<open>s\<close> is the text that Python's float formatting
  gives for the parsed value, not the text of the line it was read from. For a list
  whose lines are whole numbers below \<open>2 ^ 53\<close> written in decimal digits, a successful
  run of \<^verbatim>\<open>main\<close> writes, for the line \<open>n\<close>, the file
  \<^verbatim>\<open>colundi_waveforms_<name>/colundi_n.0.wav\<close>: the name carries \<^verbatim>\<open>n.0\<close>, which is
  another text than the line but parses to the same number.
\<close>

theorem output_file_paths:
  "(generate_files fmt self frequencies output_folder k w = (w', None) \<longrightarrow>
      dom (wav_files w') =
        dom (wav_files w) \<union>
        (\<lambda>frequency. output_folder @ ''/'' @ ''colundi_'' @ fmt frequency @ ''.wav'')
          ` set frequencies) \<and>
   (text_files v ''colundi_hertz.txt'' = Some content \<and>
    split_newline content = map nat_str ns \<and> (\<forall>n\<in>set ns. n < 2 ^ 53) \<and>
    main float_str fsin a v = (v', None) \<longrightarrow>
      dom (wav_files v') =
        dom (wav_files v) \<union>
        (\<lambda>n. ''colundi_waveforms_'' @ map lower (waveform_name (arg_waveform a)) @ ''/'' @
              ''colundi_'' @ nat_str n @ ''.0'' @ ''.wav'') ` set ns \<and>
      (\<forall>n\<in>set ns. py_float (nat_str n @ ''.0'') = py_float (nat_str n)))"
proof (intro conjI impI)
  assume "generate_files fmt self frequencies output_folder k w = (w', None)"
  then show "dom (wav_files w') =
        dom (wav_files w) \<union>
        (\<lambda>frequency. output_folder @ ''/'' @ ''colundi_'' @ fmt frequency @ ''.wav'')
          ` set frequencies"
    by (rule generate_files_dom)
next
  assume h: "text_files v ''colundi_hertz.txt'' = Some content \<and>
    split_newline content = map nat_str ns \<and> (\<forall>n\<in>set ns. n < 2 ^ 53) \<and>
    main float_str fsin a v = (v', None)"
  then show "dom (wav_files v') =
        dom (wav_files v) \<union>
        (\<lambda>n. ''colundi_waveforms_'' @ map lower (waveform_name (arg_waveform a)) @ ''/'' @
              ''colundi_'' @ nat_str n @ ''.0'' @ ''.wav'') ` set ns"
    using main_numerals_dom[of v content ns fsin a v'] by blast
next
  show "\<forall>n\<in>set ns. py_float (nat_str n @ ''.0'') = py_float (nat_str n)"
    by (simp add: py_float_nat_str_round)
qed

theorem output_file_paths_witness:
  "\<forall>fsin. main float_str fsin
     \<lparr>arg_sample_rate = 1, arg_duration = 1, arg_amplitude = Finite (1 / 2),
      arg_waveform = SQUARE\<rparr>
     \<lparr>text_files = [''colundi_hertz.txt'' \<mapsto> ''440''], dirs = {}, wav_files = Map.empty,
      stdout = []\<rparr>
   = (\<lparr>text_files = [''colundi_hertz.txt'' \<mapsto> ''440''],
       dirs = {''colundi_waveforms_square''},
       wav_files = [''colundi_waveforms_square/colundi_440.0.wav'' \<mapsto> ([Finite (1 / 2)], 1)],
       stdout = [''Generating WaveFormType.SQUARE waveforms for 1 frequencies'',
                 ''Waveforms generated, outputs are in colundi_waveforms_square'']\<rparr>, None) \<and>
   dom (wav_files
     \<lparr>text_files = [''colundi_hertz.txt'' \<mapsto> ''440''],
       dirs = {''colundi_waveforms_square''},
       wav_files = [''colundi_waveforms_square/colundi_440.0.wav'' \<mapsto> ([Finite (1 / 2)], 1)],
       stdout = [''Generating WaveFormType.SQUARE waveforms for 1 frequencies'',
                 ''Waveforms generated, outputs are in colundi_waveforms_square'']\<rparr>)
   = {''colundi_waveforms_'' @ map lower (waveform_name SQUARE) @ ''/'' @ ''colundi_'' @
        nat_str 440 @ ''.0'' @ ''.wav''} \<and>
   py_float (nat_str 440 @ ''.0'') = py_float (nat_str 440)"
proof
  fix fsin
  have c: "split_newline ''440'' = map nat_str [440]" by code_simp
  have n: "nat_str 440 = ''440''" by code_simp
  have l: "map lower ''SQUARE'' = ''square''" by code_simp
  show "main float_str fsin
     \<lparr>arg_sample_rate = 1, arg_duration = 1, arg_amplitude = Finite (1 / 2),
      arg_waveform = SQUARE\<rparr>
     \<lparr>text_files = [''colundi_hertz.txt'' \<mapsto> ''440''], dirs = {}, wav_files = Map.empty,
      stdout = []\<rparr>
   = (\<lparr>text_files = [''colundi_hertz.txt'' \<mapsto> ''440''],
       dirs = {''colundi_waveforms_square''},
       wav_files = [''colundi_waveforms_square/colundi_440.0.wav'' \<mapsto> ([Finite (1 / 2)], 1)],
       stdout = [''Generating WaveFormType.SQUARE waveforms for 1 frequencies'',
                 ''Waveforms generated, outputs are in colundi_waveforms_square'']\<rparr>, None) \<and>
   dom (wav_files
     \<lparr>text_files = [''colundi_hertz.txt'' \<mapsto> ''440''],
       dirs = {''colundi_waveforms_square''},
       wav_files = [''colundi_waveforms_square/colundi_440.0.wav'' \<mapsto> ([Finite (1 / 2)], 1)],
       stdout = [''Generating WaveFormType.SQUARE waveforms for 1 frequencies'',
                 ''Waveforms generated, outputs are in colundi_waveforms_square'']\<rparr>)
   = {''colundi_waveforms_'' @ map lower (waveform_name SQUARE) @ ''/'' @ ''colundi_'' @
        nat_str 440 @ ''.0'' @ ''.wav''} \<and>
   py_float (nat_str 440 @ ''.0'') = py_float (nat_str 440)"
    using output_file_paths
      [of float_str "WaveformGenerator fsin 2 1 (Finite (1 / 2))" "[]" "''x''" SQUARE
          "\<lparr>text_files = Map.empty, dirs = {}, wav_files = Map.empty, stdout = []\<rparr>"
          "\<lparr>text_files = Map.empty, dirs = {}, wav_files = Map.empty, stdout = []\<rparr>"
          "\<lparr>text_files = [''colundi_hertz.txt'' \<mapsto> ''440''], dirs = {}, wav_files = Map.empty,
            stdout = []\<rparr>"
          "''440''" "[440]" fsin
          "\<lparr>arg_sample_rate = 1, arg_duration = 1, arg_amplitude = Finite (1 / 2),
            arg_waveform = SQUARE\<rparr>"
          "\<lparr>text_files = [''colundi_hertz.txt'' \<mapsto> ''440''],
            dirs = {''colundi_waveforms_square''},
            wav_files = [''colundi_waveforms_square/colundi_440.0.wav'' \<mapsto> ([Finite (1 / 2)], 1)],
            stdout = [''Generating WaveFormType.SQUARE waveforms for 1 frequencies'',
                 ''Waveforms generated, outputs are in colundi_waveforms_square'']\<rparr>"]
      main_440[of fsin] c
    by (simp add: n l)
qed

text \<open>
  Claim C7 fails as stated: for the list file with the single line \<^verbatim>\<open>440\<close> (sample
  rate 1, duration 1, square) the only file written is
  \<^verbatim>\<open>colundi_waveforms_square/colundi_440.0.wav\<close>; the text \<^verbatim>\<open>440\<close> of the list is not
  the text in the file name.
\<close>

theorem list_text_not_in_file_name:
  "\<forall>fsin. main float_str fsin
     \<lparr>arg_sample_rate = 1, arg_duration = 1, arg_amplitude = Finite (1 / 2),
      arg_waveform = SQUARE\<rparr>
     \<lparr>text_files = [''colundi_hertz.txt'' \<mapsto> ''440''], dirs = {}, wav_files = Map.empty,
      stdout = []\<rparr>
   = (\<lparr>text_files = [''colundi_hertz.txt'' \<mapsto> ''440''],
       dirs = {''colundi_waveforms_square''},
       wav_files = [''colundi_waveforms_square/colundi_440.0.wav'' \<mapsto> ([Finite (1 / 2)], 1)],
       stdout = [''Generating WaveFormType.SQUARE waveforms for 1 frequencies'',
                 ''Waveforms generated, outputs are in colundi_waveforms_square'']\<rparr>, None)"
  using main_440 by blast

end
